theory Spec2Isabelle
  imports Main "HOL-Library.AList"
begin

section \<open>Data model of modules/renter/repair.go\<close>

text \<open>
  \<^verbatim>\<open>types.FileContractID\<close> is an opaque identifier; only equality is used. Times are
  nanoseconds counted from the zero value of \<^verbatim>\<open>time.Time\<close>, so the zero value is 0.
\<close>

type_synonym fcid = nat
type_synonym bytes = "nat list"
type_synonym time = int

datatype error = IndexOutOfRange | NilDereference

text \<open>
  The struct \<^verbatim>\<open>chunkGaps\<close> declares \<^verbatim>\<open>contracts\<close> and \<^verbatim>\<open>pieces\<close>, and the method
  \<^verbatim>\<open>numGaps()\<close>. The scheduler also reads and assigns \<^verbatim>\<open>chunkGaps.numGaps\<close> as a field
  (lines 238 and 327 to 334). Both are kept apart here: \<open>numGapsField\<close> is the field those
  lines read and write, \<open>numGaps\<close> (below) is the method. \<^verbatim>\<open>var gaps chunkGaps\<close> gives the
  field Go's zero value.
\<close>

record chunkGaps =
  contracts :: "fcid list"
  pieces :: "nat list"
  numGapsField :: nat

record chunkID =
  chunkIndex :: nat
  filename :: string

record pieceData =
  Chunk :: nat
  Piece :: nat

record fileContract =
  ID :: fcid
  Pieces :: "pieceData list"

text \<open>
  \<open>siafile\<close> is the struct \<^verbatim>\<open>file\<close>. The builder reads the name, \<^verbatim>\<open>numChunks()\<close>, \<^verbatim>\<open>erasureCode.NumPieces()\<close>
  and the contracts, in the order in which \<^verbatim>\<open>range file.contracts\<close> yields them.
\<close>

record siafile =
  name :: string
  numChunks :: nat
  numPieces :: nat
  fileContracts :: "fileContract list"

record worker =
  recentUploadFailure :: time

record uploadWork =
  uwChunkIndex :: nat
  uwData :: bytes
  uwFile :: string
  uwPieceIndex :: nat

record finishedUpload =
  workerID :: fcid
  err :: bool

type_synonym matrix = "chunkID \<rightharpoonup> chunkGaps"

text \<open>
  \<^verbatim>\<open>gapCounts\<close> is a \<^verbatim>\<open>map[int]int\<close>: an association list with one entry for each key
  that was ever written; a key that is absent reads as 0, as in Go. The keys are lengths
  of slices, hence natural numbers; the counts can go below zero.
\<close>

type_synonym histogram = "(nat \<times> int) list"

definition lookupGap :: "histogram \<Rightarrow> nat \<Rightarrow> int" where
  "lookupGap gc k = (case map_of gc k of None \<Rightarrow> 0 | Some v \<Rightarrow> v)"

definition incrGap :: "nat \<Rightarrow> histogram \<Rightarrow> histogram" where
  "incrGap k gc = AList.update k (lookupGap gc k + 1) gc"

definition decrGap :: "nat \<Rightarrow> histogram \<Rightarrow> histogram" where
  "decrGap k gc = AList.update k (lookupGap gc k - 1) gc"

text \<open>Lines 153 to 158 and 194 to 199: the largest key whose count is positive, or 0.\<close>

definition maxGapsOf :: "histogram \<Rightarrow> nat" where
  "maxGapsOf gc = fold (\<lambda>(i, gaps) m. if i > m \<and> gaps > 0 then i else m) gc 0"

text \<open>Lines 106 to 112, the method \<^verbatim>\<open>numGaps()\<close>.\<close>

definition numGaps :: "chunkGaps \<Rightarrow> nat" where
  "numGaps cg =
     (if length (contracts cg) \<le> length (pieces cg) then length (contracts cg)
      else length (pieces cg))"

section \<open>The repair matrix builder\<close>

text \<open>
  Lines 48 to 61. The two maps filled by the loop are declared as \<^verbatim>\<open>completedPieces\<close>
  and \<^verbatim>\<open>utilizedContracts\<close> and then used as \<^verbatim>\<open>pieceMap\<close> and \<^verbatim>\<open>contractMap\<close>; they are
  the per-chunk lists of stored piece indices and of the contracts storing them, in the
  order of the appends.
\<close>

definition pieceMap :: "siafile \<Rightarrow> nat \<Rightarrow> nat list" where
  "pieceMap f i =
     concat (map (\<lambda>c. map Piece (filter (\<lambda>p. Chunk p = i) (Pieces c))) (fileContracts f))"

definition contractMap :: "siafile \<Rightarrow> nat \<Rightarrow> fcid list" where
  "contractMap f i =
     concat (map (\<lambda>c. map (\<lambda>p. ID c) (filter (\<lambda>p. Chunk p = i) (Pieces c))) (fileContracts f))"

text \<open>
  Lines 77 to 79: \<^verbatim>\<open>potentialPieceGaps[piece] = true\<close> for every stored piece; an index
  beyond the slice panics.
\<close>

fun markPieces :: "bool list \<Rightarrow> nat list \<Rightarrow> error + bool list" where
  "markPieces arr [] = Inr arr"
| "markPieces arr (p # ps) =
     (if p < length arr then markPieces (arr[p := True]) ps else Inl IndexOutOfRange)"

text \<open>Lines 86 to 90: the indices still false, in ascending order.\<close>

definition unmarked :: "bool list \<Rightarrow> nat list" where
  "unmarked arr = filter (\<lambda>j. \<not> arr ! j) [0..<length arr]"

text \<open>
  Lines 69 to 72, 80 to 82 and 91 to 93: the workers, as keys of a map, without the
  contracts that already store a piece of the chunk. Go ranges over the map in an
  arbitrary order; the order of the flattened worker list is taken.
\<close>

definition contractGaps :: "fcid list \<Rightarrow> fcid list \<Rightarrow> fcid list" where
  "contractGaps ws used = filter (\<lambda>c. c \<notin> set used) (remdups ws)"

text \<open>
  Lines 66 to 93: the gap record of chunk \<open>i\<close>, if the chunk has fewer stored pieces
  than the erasure code makes.
\<close>

definition chunkEntry :: "siafile \<Rightarrow> fcid list \<Rightarrow> nat \<Rightarrow> error + chunkGaps option" where
  "chunkEntry f ws i =
     (if length (pieceMap f i) < numPieces f then
        (case markPieces (replicate (numPieces f) False) (pieceMap f i) of
           Inl x \<Rightarrow> Inl x
         | Inr potentialPieceGaps \<Rightarrow>
             Inr (Some \<lparr>contracts = contractGaps ws (contractMap f i),
                        pieces = unmarked potentialPieceGaps,
                        numGapsField = 0\<rparr>))
      else Inr None)"

text \<open>
  Lines 65 to 103, the loop over the chunks, as a recursion over the chunk indices, with
  the updates of lines 97 to 101.
\<close>

fun addChunks :: "siafile \<Rightarrow> fcid list \<Rightarrow> nat list \<Rightarrow> matrix \<times> histogram \<Rightarrow> error + matrix \<times> histogram" where
  "addChunks f ws [] st = Inr st"
| "addChunks f ws (i # is) (rm, gc) =
     (case chunkEntry f ws i of
        Inl x \<Rightarrow> Inl x
      | Inr None \<Rightarrow> addChunks f ws is (rm, gc)
      | Inr (Some gaps) \<Rightarrow>
          addChunks f ws is
            (rm(\<lparr>chunkIndex = i, filename = name f\<rparr> \<mapsto> gaps), incrGap (numGaps gaps) gc))"

definition addFileToRepairMatrix :: "siafile \<Rightarrow> fcid list \<Rightarrow> matrix \<times> histogram \<Rightarrow> error + matrix \<times> histogram" where
  "addFileToRepairMatrix f availableWorkers st = addChunks f availableWorkers [0..<numChunks f] st"

text \<open>
  Lines 114 to 129. \<open>fs\<close> lists the values of \<^verbatim>\<open>r.files\<close> in the order of the range
  loop; \<open>tracked\<close> is \<^verbatim>\<open>r.tracking\<close>, from file name to repair path.
\<close>

fun addFiles :: "siafile list \<Rightarrow> (string \<rightharpoonup> string) \<Rightarrow> fcid list \<Rightarrow> matrix \<times> histogram \<Rightarrow> error + matrix \<times> histogram" where
  "addFiles [] tracked ws st = Inr st"
| "addFiles (f # fs) tracked ws st =
     (case tracked (name f) of
        None \<Rightarrow> addFiles fs tracked ws st
      | Some _ \<Rightarrow>
          (case addFileToRepairMatrix f ws st of
             Inl e \<Rightarrow> Inl e
           | Inr st1 \<Rightarrow> addFiles fs tracked ws st1))"

definition createRepairMatrix :: "siafile list \<Rightarrow> (string \<rightharpoonup> string) \<Rightarrow> fcid list \<Rightarrow> error + matrix \<times> histogram" where
  "createRepairMatrix fs tracked availableWorkers = addFiles fs tracked availableWorkers (Map.empty, [])"

section \<open>The scheduler\<close>

text \<open>
  The local variables of \<^verbatim>\<open>managedRepairIteration\<close> that live across the iterations of
  its loop, the global worker pool, and the work items handed to the workers' queues so
  far. The two worker sets are Go maps used as sets: a list stands for its set of
  elements, \<open>mapLen\<close> is \<^verbatim>\<open>len\<close>, \<open>removeAll\<close> is \<^verbatim>\<open>delete\<close>, \<open>List.insert\<close> is the
  assignment of a key.
\<close>

record sched =
  repairMatrix :: matrix
  gapCounts :: histogram
  availableWorkers :: "fcid list"
  activeWorkers :: "fcid list"
  retiredWorkers :: "fcid list"
  workerPool :: "(fcid \<times> worker) list"
  uploads :: "(fcid \<times> uploadWork) list"

definition mapLen :: "'a list \<Rightarrow> nat" where
  "mapLen xs = length (remdups xs)"

text \<open>
  What the scheduler consumes from its collaborators: \<^verbatim>\<open>r.files\<close>, \<^verbatim>\<open>r.tracking\<close>,
  \<^verbatim>\<open>os.Open\<close>, \<^verbatim>\<open>ReadAt\<close> (\<open>None\<close> for an error other than the two end-of-file errors),
  \<^verbatim>\<open>erasureCode.Encode\<close>, \<^verbatim>\<open>deriveKey(...).EncryptBytes\<close> (the value returned and whether
  the error is set), and which case the \<^verbatim>\<open>select\<close> of line 310 takes.
\<close>

record env =
  files :: "string \<rightharpoonup> siafile"
  tracking :: "string \<rightharpoonup> string"
  openFile :: "string \<Rightarrow> bool"
  readAt :: "string \<Rightarrow> nat \<Rightarrow> bytes option"
  encode :: "siafile \<Rightarrow> bytes \<Rightarrow> bytes list option"
  encryptBytes :: "siafile \<Rightarrow> nat \<Rightarrow> nat \<Rightarrow> bytes \<Rightarrow> bytes \<times> bool"
  sendBeforeStop :: "fcid \<Rightarrow> uploadWork \<Rightarrow> bool"

text \<open>How a loop body ends: by falling through or \<^verbatim>\<open>continue\<close>, \<^verbatim>\<open>break\<close>, \<^verbatim>\<open>return\<close>, or a panic.\<close>

datatype ctl = Continue | Break | Return | Panic error

text \<open>Lines 209 to 216.\<close>

definition usefulWorkers :: "fcid list \<Rightarrow> chunkGaps \<Rightarrow> fcid list" where
  "usefulWorkers av cg =
     concat (map (\<lambda>worker. map (\<lambda>contract. worker) (filter (\<lambda>contract. worker = contract) (contracts cg)))
                 (remdups av))"

text \<open>Lines 226 to 233: for each retired worker, its first occurrence is cut out.\<close>

definition purgeRetired :: "fcid list \<Rightarrow> fcid list \<Rightarrow> fcid list" where
  "purgeRetired retired cs = fold remove1 retired cs"

text \<open>Lines 224 to 242, the branch of the batching test that ends in \<^verbatim>\<open>continue\<close>.\<close>

definition deferChunk :: "chunkID \<Rightarrow> chunkGaps \<Rightarrow> sched \<Rightarrow> sched" where
  "deferChunk cid cg s =
     (let cg1 = cg\<lparr>contracts := purgeRetired (retiredWorkers s) (contracts cg)\<rparr>
      in if length (contracts cg1) < length (pieces cg1) \<and> length (contracts cg1) < numGaps cg1 then
           (let oldNumGaps = numGaps cg1;
                cg2 = cg1\<lparr>numGapsField := length (contracts cg1)\<rparr>
            in s\<lparr>repairMatrix := (repairMatrix s)(cid \<mapsto> cg2),
                 gapCounts := incrGap (numGaps cg2) (decrGap oldNumGaps (gapCounts s))\<rparr>)
         else s\<lparr>repairMatrix := (repairMatrix s)(cid \<mapsto> cg1)\<rparr>)"

text \<open>
  Lines 288 to 295. The \<^verbatim>\<open>continue\<close> of line 293 is the last statement of the body of
  \<^verbatim>\<open>for i := range pieces\<close> and continues that loop: with or without an error, the piece
  is replaced by the value \<^verbatim>\<open>EncryptBytes\<close> returned and the next piece is encrypted.
\<close>

definition encryptPieces :: "env \<Rightarrow> siafile \<Rightarrow> nat \<Rightarrow> bytes list \<Rightarrow> bytes list" where
  "encryptPieces e f ci ps =
     map (\<lambda>i. case encryptBytes e f ci i (ps ! i) of (c, failed) \<Rightarrow> (if failed then c else c))
         [0..<length ps]"

text \<open>Lines 301 to 308: the work item for piece \<open>p\<close> of the chunk, without the channel.\<close>

definition workItem :: "chunkID \<Rightarrow> bytes list \<Rightarrow> nat \<Rightarrow> uploadWork" where
  "workItem cid ps p =
     \<lparr>uwChunkIndex = chunkIndex cid, uwData = ps ! p, uwFile = filename cid, uwPieceIndex = p\<rparr>"

text \<open>
  Lines 300 to 323. The loop runs over the useful workers and the missing pieces in
  step, so over their \<open>zip\<close>. Reading \<^verbatim>\<open>pieces[...]\<close> beyond the encoded pieces panics,
  and so does the send to a worker that the pool does not hold. The record of the chunk
  is reached through a pointer; it is threaded next to the state and written back by the
  caller.
\<close>

fun sendPieces :: "env \<Rightarrow> chunkID \<Rightarrow> bytes list \<Rightarrow> (fcid \<times> nat) list \<Rightarrow> chunkGaps \<times> sched \<Rightarrow> (chunkGaps \<times> sched) \<times> ctl" where
  "sendPieces e cid ps [] (cg, s) = ((cg, s), Continue)"
| "sendPieces e cid ps ((w, p) # rest) (cg, s) =
     (if \<not> p < length ps then ((cg, s), Panic IndexOutOfRange)
      else
        (case map_of (workerPool s) w of
           None \<Rightarrow> ((cg, s), Panic NilDereference)
         | Some _ \<Rightarrow>
             (if sendBeforeStop e w (workItem cid ps p) then
                sendPieces e cid ps rest
                  (cg\<lparr>contracts := remove1 w (contracts cg)\<rparr>,
                   s\<lparr>availableWorkers := removeAll w (availableWorkers s),
                     uploads := uploads s @ [(w, workItem cid ps p)]\<rparr>)
              else ((cg, s), Return))))"

text \<open>Lines 245 to 335, the path of a chunk that passed the batching test.\<close>

definition repairChunk :: "env \<Rightarrow> chunkID \<Rightarrow> chunkGaps \<Rightarrow> fcid list \<Rightarrow> sched \<Rightarrow> sched \<times> ctl" where
  "repairChunk e cid cg useful s =
     (case files e (filename cid) of
        None \<Rightarrow> (s, Continue)
      | Some f \<Rightarrow>
     (case tracking e (filename cid) of
        None \<Rightarrow> (s, Continue)
      | Some repairPath \<Rightarrow>
     (if \<not> openFile e repairPath then (s, Continue)
      else
     (case readAt e repairPath (chunkIndex cid) of
        None \<Rightarrow> (s, Continue)
      | Some chunk \<Rightarrow>
     (case encode e f chunk of
        None \<Rightarrow> (s, Continue)
      | Some ps \<Rightarrow>
     (case sendPieces e cid (encryptPieces e f (chunkIndex cid) ps) (zip useful (pieces cg)) (cg, s) of
        ((cg1, s1), Continue) \<Rightarrow>
          (let i = length (zip useful (pieces cg));
               cg2 = cg1\<lparr>pieces := drop i (pieces cg1)\<rparr>;
               oldNumGaps = numGapsField cg2;
               cg3 = cg2\<lparr>numGapsField :=
                       (if length (contracts cg2) < length (pieces cg2) then length (contracts cg2)
                        else length (pieces cg2))\<rparr>
           in (s1\<lparr>repairMatrix := (repairMatrix s1)(cid \<mapsto> cg3),
                   gapCounts := incrGap (numGapsField cg3) (decrGap oldNumGaps (gapCounts s1))\<rparr>,
               Break))
      | ((cg1, s1), c) \<Rightarrow> (s1\<lparr>repairMatrix := (repairMatrix s1)(cid \<mapsto> cg1)\<rparr>, c)))))))"

text \<open>Lines 207 to 336, the body of the loop over the repair matrix.\<close>

definition processChunk :: "env \<Rightarrow> nat \<Rightarrow> chunkID \<Rightarrow> chunkGaps \<Rightarrow> sched \<Rightarrow> sched \<times> ctl" where
  "processChunk e maxGaps cid cg s =
     (let useful = usefulWorkers (availableWorkers s) cg
      in if maxGaps \<ge> 4 \<and> length useful < 4 then (deferChunk cid cg s, Continue)
         else repairChunk e cid cg useful s)"

text \<open>
  Line 206. \<open>order\<close> is the order in which the range loop yields the keys of the
  matrix. \<open>Continue\<close> as the result means that the range was exhausted.
\<close>

fun scanChunks :: "env \<Rightarrow> nat \<Rightarrow> chunkID list \<Rightarrow> sched \<Rightarrow> sched \<times> ctl" where
  "scanChunks e maxGaps [] s = (s, Continue)"
| "scanChunks e maxGaps (cid # order) s =
     (case repairMatrix s cid of
        None \<Rightarrow> scanChunks e maxGaps order s
      | Some cg \<Rightarrow>
          (case processChunk e maxGaps cid cg s of
             (s1, Continue) \<Rightarrow> scanChunks e maxGaps order s1
           | (s1, c) \<Rightarrow> (s1, c)))"

definition hour :: time where
  "hour = 3600000000000"

text \<open>Lines 338 to 354: the number of available workers to wait for, and \<^verbatim>\<open>newMatrix\<close>.\<close>

definition neededWorkers :: "int \<Rightarrow> int \<Rightarrow> int \<Rightarrow> time \<Rightarrow> int \<times> bool" where
  "neededWorkers maxGaps nActive nAvailable elapsed =
     (let exclude = maxGaps - 4;
          exclude = (if exclude < 0 then 0 else exclude);
          need = nActive - exclude;
          need = (if need \<le> nAvailable then nAvailable + 1 else need);
          need = (if need > nActive then nActive else need)
      in if elapsed > hour then (nActive, True) else (need, False))"

text \<open>Lines 365 to 380, what one received result does to the state and to \<^verbatim>\<open>need\<close>.\<close>

fun handleResult :: "finishedUpload \<Rightarrow> time \<Rightarrow> sched \<times> int \<Rightarrow> sched \<times> int" where
  "handleResult fu now (s, need) =
     (if err fu then
        (case map_of (workerPool s) (workerID fu) of
           Some w \<Rightarrow>
             (s\<lparr>workerPool := AList.update (workerID fu) (w\<lparr>recentUploadFailure := now\<rparr>) (workerPool s),
                retiredWorkers := retiredWorkers s @ [workerID fu],
                activeWorkers := removeAll (workerID fu) (activeWorkers s)\<rparr>,
              need - 1)
         | None \<Rightarrow> (s, need))
      else (s\<lparr>availableWorkers := List.insert (workerID fu) (availableWorkers s)\<rparr>, need))"

text \<open>
  Lines 357 to 381. An event is what the \<^verbatim>\<open>select\<close> of line 359 receives: a result,
  with the reading of the clock at line 370, or the stop signal. When the events run
  out the scheduler stays blocked in the \<^verbatim>\<open>select\<close>.
\<close>

datatype event = Result finishedUpload time | StopSignal

datatype waitEnd = Enough | Stopped | Blocked

fun waitForWorkers :: "event list \<Rightarrow> sched \<times> int \<Rightarrow> (sched \<times> int) \<times> waitEnd" where
  "waitForWorkers [] (s, need) =
     (if int (mapLen (availableWorkers s)) < need then ((s, need), Blocked) else ((s, need), Enough))"
| "waitForWorkers (ev # evs) (s, need) =
     (if int (mapLen (availableWorkers s)) < need then
        (case ev of
           StopSignal \<Rightarrow> ((s, need), Stopped)
         | Result fu now \<Rightarrow> waitForWorkers evs (handleResult fu now (s, need)))
      else ((s, need), Enough))"

text \<open>Lines 389 to 399: the pending new files are folded in with the active workers.\<close>

fun foldNewFiles :: "siafile list \<Rightarrow> sched \<Rightarrow> error + sched" where
  "foldNewFiles [] s = Inr s"
| "foldNewFiles (f # fs) s =
     (case addFileToRepairMatrix f (activeWorkers s) (repairMatrix s, gapCounts s) of
        Inl e \<Rightarrow> Inl e
      | Inr (rm, gc) \<Rightarrow> foldNewFiles fs (s\<lparr>repairMatrix := rm, gapCounts := gc\<rparr>))"

text \<open>
  Lines 185 to 191. In Go a \<^verbatim>\<open>break\<close> ends the innermost \<^verbatim>\<open>for\<close>, \<^verbatim>\<open>switch\<close> or
  \<^verbatim>\<open>select\<close> statement; here that is the \<^verbatim>\<open>select\<close>. Both cases leave the \<^verbatim>\<open>select\<close> and
  execution goes on at line 193.
\<close>

datatype selectExit = SelectBreak | SelectDefault

definition stopCheck :: "bool \<Rightarrow> selectExit" where
  "stopCheck fired = (if fired then SelectBreak else SelectDefault)"

text \<open>
  What one iteration of the loop of lines 184 to 400 meets: whether the stop signal has
  fired when line 186 runs, the order of the range over the matrix, the reading of
  \<^verbatim>\<open>time.Since(startTime)\<close>, the events of the wait, and the files pending on
  \<^verbatim>\<open>r.newFiles\<close>.
\<close>

record iterInput =
  stopFired :: bool
  rangeOrder :: "chunkID list"
  elapsed :: time
  events :: "event list"
  newFiles :: "siafile list"

datatype outcome = NextIteration | EpochEnded | Returned | Waiting | Panicked error

text \<open>Lines 383 to 399, after the wait; \<^verbatim>\<open>return\<close> at line 362 when the wait was stopped.\<close>

fun afterWait :: "iterInput \<Rightarrow> bool \<Rightarrow> (sched \<times> int) \<times> waitEnd \<Rightarrow> sched \<times> outcome" where
  "afterWait inp newMatrix ((s, need), Stopped) = (s, Returned)"
| "afterWait inp newMatrix ((s, need), Blocked) = (s, Waiting)"
| "afterWait inp newMatrix ((s, need), Enough) =
     (if newMatrix then (s, EpochEnded)
      else
        (case foldNewFiles (newFiles inp) s of
           Inl x \<Rightarrow> (s, Panicked x)
         | Inr s1 \<Rightarrow> (s1, NextIteration)))"

text \<open>Lines 193 to 399.\<close>

definition iterationBody :: "env \<Rightarrow> iterInput \<Rightarrow> sched \<Rightarrow> sched \<times> outcome" where
  "iterationBody e inp s =
     (let maxGaps = maxGapsOf (gapCounts s)
      in if maxGaps = 0 then (s, EpochEnded)
         else
           (case scanChunks e maxGaps (rangeOrder inp) s of
              (s1, Return) \<Rightarrow> (s1, Returned)
            | (s1, Panic x) \<Rightarrow> (s1, Panicked x)
            | (s1, _) \<Rightarrow>
                (case neededWorkers (int maxGaps) (int (mapLen (activeWorkers s1)))
                        (int (mapLen (availableWorkers s1))) (elapsed inp) of
                   (need, newMatrix) \<Rightarrow>
                     afterWait inp newMatrix (waitForWorkers (events inp) (s1, need)))))"

definition repairIteration :: "env \<Rightarrow> iterInput \<Rightarrow> sched \<Rightarrow> sched \<times> outcome" where
  "repairIteration e inp s =
     (case stopCheck (stopFired inp) of
        SelectBreak \<Rightarrow> iterationBody e inp s
      | SelectDefault \<Rightarrow> iterationBody e inp s)"

text \<open>
  Lines 134 to 143. \<open>clock w\<close> is the reading of \<^verbatim>\<open>time.Now()\<close> taken when worker \<open>w\<close>
  is examined. The pool is a Go map: each key is visited once, with the value the map
  holds for it.
\<close>

definition eligible :: "time \<Rightarrow> worker \<Rightarrow> bool" where
  "eligible now w = (recentUploadFailure w + hour < now)"

definition initialWorkers :: "(fcid \<Rightarrow> time) \<Rightarrow> (fcid \<times> worker) list \<Rightarrow> fcid list" where
  "initialWorkers clock pool =
     filter (\<lambda>w. case map_of pool w of None \<Rightarrow> False | Some x \<Rightarrow> eligible (clock w) x)
            (remdups (map fst pool))"

text \<open>
  Lines 134 to 183: the state with which the loop is entered. (When the fresh matrix has
  no gap, lines 159 to 171 wait and return instead.)
\<close>

definition epochStart :: "(fcid \<Rightarrow> time) \<Rightarrow> (fcid \<times> worker) list \<Rightarrow> siafile list \<Rightarrow> (string \<rightharpoonup> string) \<Rightarrow> error + sched" where
  "epochStart clock pool fs tracked =
     (let availableWorkers = initialWorkers clock pool
      in case createRepairMatrix fs tracked availableWorkers of
           Inl x \<Rightarrow> Inl x
         | Inr (rm, gc) \<Rightarrow>
             Inr \<lparr>repairMatrix = rm, gapCounts = gc,
                  availableWorkers = availableWorkers, activeWorkers = availableWorkers,
                  retiredWorkers = [], workerPool = pool, uploads = []\<rparr>)"

text \<open>The loop of lines 184 to 400, over what its successive iterations meet.\<close>

fun repairLoop :: "env \<Rightarrow> iterInput list \<Rightarrow> sched \<Rightarrow> sched \<times> outcome" where
  "repairLoop e [] s = (s, NextIteration)"
| "repairLoop e (inp # inps) s =
     (case repairIteration e inp s of
        (s1, NextIteration) \<Rightarrow> repairLoop e inps s1
      | (s1, out) \<Rightarrow> (s1, out))"

section \<open>The steps of an epoch\<close>

text \<open>
  The operations through which the loop changes its state: the scan of an iteration
  (not made when \<^verbatim>\<open>maxGaps\<close> is 0), the handling of one received result, and the folding
  of one new file. Next to the state runs the list of the workers whose results have
  been received. A worker answers each work item it was handed with one result on the
  channel of the epoch; \<open>awaited\<close> says that a result of the worker is still due, and
  a result is received only from such a worker.
\<close>

datatype step = Scan env "chunkID list" | Receive finishedUpload time | NewFile siafile

definition awaited :: "sched \<Rightarrow> fcid list \<Rightarrow> fcid \<Rightarrow> bool" where
  "awaited s received w = (count_list received w < count_list (map fst (uploads s)) w)"

fun execStep :: "step \<Rightarrow> sched \<times> fcid list \<Rightarrow> (sched \<times> fcid list) option" where
  "execStep (Scan e order) (s, received) =
     (if maxGapsOf (gapCounts s) = 0 then Some (s, received)
      else Some (fst (scanChunks e (maxGapsOf (gapCounts s)) order s), received))"
| "execStep (Receive fu now) (s, received) =
     (if awaited s received (workerID fu)
      then Some (fst (handleResult fu now (s, 0)), workerID fu # received)
      else None)"
| "execStep (NewFile f) (s, received) =
     (case foldNewFiles [f] s of
        Inl x \<Rightarrow> None
      | Inr s1 \<Rightarrow> Some (s1, received))"

fun execSteps :: "step list \<Rightarrow> sched \<times> fcid list \<Rightarrow> (sched \<times> fcid list) option" where
  "execSteps [] st = Some st"
| "execSteps (x # xs) st =
     (case execStep x st of
        None \<Rightarrow> None
      | Some st1 \<Rightarrow> execSteps xs st1)"

text \<open>
  The steps that the loop takes on given inputs: in an iteration the scan, then the
  results that the wait consumes, then, when the wait has ended with enough workers and
  no new matrix is due, the pending files.
\<close>

fun waitSteps :: "event list \<Rightarrow> sched \<times> int \<Rightarrow> step list" where
  "waitSteps [] (s, need) = []"
| "waitSteps (ev # evs) (s, need) =
     (if int (mapLen (availableWorkers s)) < need then
        (case ev of
           StopSignal \<Rightarrow> []
         | Result fu now \<Rightarrow> Receive fu now # waitSteps evs (handleResult fu now (s, need)))
      else [])"

definition iterationSteps :: "env \<Rightarrow> iterInput \<Rightarrow> sched \<Rightarrow> step list" where
  "iterationSteps e inp s =
     (let maxGaps = maxGapsOf (gapCounts s)
      in if maxGaps = 0 then []
         else
           (case scanChunks e maxGaps (rangeOrder inp) s of
              (s1, Return) \<Rightarrow> [Scan e (rangeOrder inp)]
            | (s1, Panic x) \<Rightarrow> [Scan e (rangeOrder inp)]
            | (s1, _) \<Rightarrow>
                (case neededWorkers (int maxGaps) (int (mapLen (activeWorkers s1)))
                        (int (mapLen (availableWorkers s1))) (elapsed inp) of
                   (need, newMatrix) \<Rightarrow>
                     Scan e (rangeOrder inp) # waitSteps (events inp) (s1, need)
                       @ (if snd (waitForWorkers (events inp) (s1, need)) = Enough \<and> \<not> newMatrix
                          then map NewFile (newFiles inp) else []))))"

fun loopSteps :: "env \<Rightarrow> iterInput list \<Rightarrow> sched \<Rightarrow> step list" where
  "loopSteps e [] s = []"
| "loopSteps e (inp # inps) s =
     iterationSteps e inp s
       @ (case repairIteration e inp s of
            (s1, NextIteration) \<Rightarrow> loopSteps e inps s1
          | (s1, out) \<Rightarrow> [])"

text \<open>
  What holds of the state and the received results along the steps of an epoch, for the
  set \<open>elig\<close> of workers eligible at its start: the worker sets are nested; a worker
  has at most one result due, and only while it is active and not available; the
  missing contracts of a chunk are listed without repetition.
\<close>

definition setsOk :: "fcid list \<Rightarrow> sched \<Rightarrow> bool" where
  "setsOk elig s =
     (set (availableWorkers s) \<subseteq> set (activeWorkers s) \<and> set (activeWorkers s) \<subseteq> set elig)"

definition answersOk :: "sched \<Rightarrow> fcid list \<Rightarrow> bool" where
  "answersOk s received =
     (\<forall>w. count_list (map fst (uploads s)) w
            \<le> count_list received w
               + (if w \<in> set (activeWorkers s) \<and> w \<notin> set (availableWorkers s) then 1 else 0))"

definition matrixOk :: "matrix \<Rightarrow> bool" where
  "matrixOk rm = (\<forall>cid cg. rm cid = Some cg \<longrightarrow> distinct (contracts cg))"

definition epochInv :: "fcid list \<Rightarrow> sched \<times> fcid list \<Rightarrow> bool" where
  "epochInv elig st =
     (setsOk elig (fst st) \<and> answersOk (fst st) (snd st) \<and> matrixOk (repairMatrix (fst st)))"

section \<open>Example inputs\<close>

text \<open>
  A file of one chunk and two pieces with nothing stored yet, an environment in which
  the repair source is readable, and small scheduler states, used to run the
  definitions on concrete inputs.
\<close>

definition exFile :: siafile where
  "exFile = \<lparr>name = ''f'', numChunks = 1, numPieces = 2, fileContracts = []\<rparr>"

definition exChunk :: chunkID where
  "exChunk = \<lparr>chunkIndex = 0, filename = ''f''\<rparr>"

definition exEnv :: env where
  "exEnv = \<lparr>files = [''f'' \<mapsto> exFile], tracking = [''f'' \<mapsto> ''/repair/f''],
            openFile = (\<lambda>path. True), readAt = (\<lambda>path i. Some [0]),
            encode = (\<lambda>f chunk. Some [[1], [2]]),
            encryptBytes = (\<lambda>f ci i piece. (piece, False)),
            sendBeforeStop = (\<lambda>w uw. True)\<rparr>"

text \<open>
  The state with which the loop is entered for this file when worker 7 alone is in the
  pool: both pieces and the contract of worker 7 are missing.
\<close>

definition exSmall :: sched where
  "exSmall = \<lparr>repairMatrix = [exChunk \<mapsto> \<lparr>contracts = [7], pieces = [0, 1], numGapsField = 0\<rparr>],
              gapCounts = [(1, 1)],
              availableWorkers = [7], activeWorkers = [7], retiredWorkers = [],
              workerPool = [(7, \<lparr>recentUploadFailure = 0\<rparr>)], uploads = []\<rparr>"

text \<open>
  One chunk with five missing pieces and five missing contracts; worker 1 has been
  retired after a failed upload and the other four workers are busy.
\<close>

definition exLarge :: sched where
  "exLarge = \<lparr>repairMatrix = [exChunk \<mapsto> \<lparr>contracts = [1, 2, 3, 4, 5], pieces = [0, 1, 2, 3, 4],
                                          numGapsField = 0\<rparr>],
              gapCounts = [(5, 1)],
              availableWorkers = [], activeWorkers = [2, 3, 4, 5], retiredWorkers = [1],
              workerPool = [(1, \<lparr>recentUploadFailure = 0\<rparr>), (2, \<lparr>recentUploadFailure = 0\<rparr>),
                            (3, \<lparr>recentUploadFailure = 0\<rparr>), (4, \<lparr>recentUploadFailure = 0\<rparr>),
                            (5, \<lparr>recentUploadFailure = 0\<rparr>)],
              uploads = []\<rparr>"

text \<open>
  An iteration met after more than an hour: three of the four busy workers report
  success, one reports a failure, and a new file is pending.
\<close>

definition exHourInput :: iterInput where
  "exHourInput = \<lparr>stopFired = False, rangeOrder = [exChunk], elapsed = 2 * hour,
     events = [Result \<lparr>workerID = 2, err = False\<rparr> 0, Result \<lparr>workerID = 3, err = True\<rparr> 0,
               Result \<lparr>workerID = 4, err = False\<rparr> 0, Result \<lparr>workerID = 5, err = False\<rparr> 0],
     newFiles = [exFile]\<rparr>"

text \<open>The same environment with an encryption that fails on every piece.\<close>

definition exEnvEncryptFails :: env where
  "exEnvEncryptFails = exEnv\<lparr>encryptBytes := (\<lambda>f ci i piece. ([], True))\<rparr>"

text \<open>An iteration that starts after the stop signal has fired.\<close>

definition exStopInput :: iterInput where
  "exStopInput = \<lparr>stopFired = True, rangeOrder = [exChunk], elapsed = 0,
                  events = [StopSignal], newFiles = []\<rparr>"

text \<open>
  An epoch: workers 7 and 8 are eligible and worker 9 failed within the last hour; the
  scan hands both pieces of the file's chunk out, worker 7 succeeds, worker 8 fails, and
  the file is announced again.
\<close>

definition exWorkers :: "(fcid \<times> worker) list" where
  "exWorkers = [(7, \<lparr>recentUploadFailure = 0\<rparr>), (8, \<lparr>recentUploadFailure = 0\<rparr>),
                (9, \<lparr>recentUploadFailure = 5 * hour\<rparr>)]"

definition exClock :: "fcid \<Rightarrow> time" where
  "exClock w = 5 * hour + 10"

definition exStart :: sched where
  "exStart = \<lparr>repairMatrix = [exChunk \<mapsto> \<lparr>contracts = [7, 8], pieces = [0, 1], numGapsField = 0\<rparr>],
              gapCounts = [(2, 1)],
              availableWorkers = [7, 8], activeWorkers = [7, 8], retiredWorkers = [],
              workerPool = exWorkers, uploads = []\<rparr>"

definition exSteps :: "step list" where
  "exSteps = [Scan exEnv [exChunk], Receive \<lparr>workerID = 7, err = False\<rparr> 0,
              Receive \<lparr>workerID = 8, err = True\<rparr> 99, NewFile exFile]"

text \<open>
  A file of two chunks and five pieces with nothing stored, five workers without a
  recorded failure, and the state with which the loop is entered for them. In the first
  iteration the scan reaches chunk 0 first and hands its five pieces out; worker 1 then
  reports a failure and workers 2, 3 and 4 report success. The second iteration scans
  chunk 1 first, and its wait is ended by the stop signal.
\<close>

definition exFile2 :: siafile where
  "exFile2 = \<lparr>name = ''g'', numChunks = 2, numPieces = 5, fileContracts = []\<rparr>"

definition exChunk0 :: chunkID where
  "exChunk0 = \<lparr>chunkIndex = 0, filename = ''g''\<rparr>"

definition exChunk1 :: chunkID where
  "exChunk1 = \<lparr>chunkIndex = 1, filename = ''g''\<rparr>"

definition exEnv2 :: env where
  "exEnv2 = \<lparr>files = [''g'' \<mapsto> exFile2], tracking = [''g'' \<mapsto> ''/repair/g''],
             openFile = (\<lambda>path. True), readAt = (\<lambda>path i. Some [0]),
             encode = (\<lambda>f chunk. Some [[1], [2], [3], [4], [5]]),
             encryptBytes = (\<lambda>f ci i piece. (piece, False)),
             sendBeforeStop = (\<lambda>w uw. True)\<rparr>"

definition exPool5 :: "(fcid \<times> worker) list" where
  "exPool5 = [(1, \<lparr>recentUploadFailure = 0\<rparr>), (2, \<lparr>recentUploadFailure = 0\<rparr>),
              (3, \<lparr>recentUploadFailure = 0\<rparr>), (4, \<lparr>recentUploadFailure = 0\<rparr>),
              (5, \<lparr>recentUploadFailure = 0\<rparr>)]"

definition exEpoch :: sched where
  "exEpoch = \<lparr>repairMatrix =
                [exChunk0 \<mapsto> \<lparr>contracts = [1, 2, 3, 4, 5], pieces = [0, 1, 2, 3, 4], numGapsField = 0\<rparr>,
                 exChunk1 \<mapsto> \<lparr>contracts = [1, 2, 3, 4, 5], pieces = [0, 1, 2, 3, 4], numGapsField = 0\<rparr>],
              gapCounts = [(5, 2)],
              availableWorkers = [1, 2, 3, 4, 5], activeWorkers = [1, 2, 3, 4, 5],
              retiredWorkers = [], workerPool = exPool5, uploads = []\<rparr>"

definition exIter1 :: iterInput where
  "exIter1 = \<lparr>stopFired = False, rangeOrder = [exChunk0, exChunk1], elapsed = 0,
     events = [Result \<lparr>workerID = 1, err = True\<rparr> 99, Result \<lparr>workerID = 2, err = False\<rparr> 0,
               Result \<lparr>workerID = 3, err = False\<rparr> 0, Result \<lparr>workerID = 4, err = False\<rparr> 0],
     newFiles = []\<rparr>"

definition exIter2 :: iterInput where
  "exIter2 = \<lparr>stopFired = False, rangeOrder = [exChunk1, exChunk0], elapsed = 0,
               events = [StopSignal], newFiles = []\<rparr>"

definition exIter2Stopped :: iterInput where
  "exIter2Stopped = \<lparr>stopFired = True, rangeOrder = [exChunk1, exChunk0], elapsed = 0,
                      events = [StopSignal], newFiles = []\<rparr>"

text \<open>The state of this epoch after the first iteration.\<close>

definition exSecond :: sched where
  "exSecond = \<lparr>repairMatrix =
                 [exChunk1 \<mapsto> \<lparr>contracts = [1, 2, 3, 4, 5], pieces = [0, 1, 2, 3, 4], numGapsField = 0\<rparr>,
                  exChunk0 \<mapsto> \<lparr>contracts = [], pieces = [], numGapsField = 0\<rparr>],
               gapCounts = [(5, 2), (0, 0)],
               availableWorkers = [4, 3, 2], activeWorkers = [2, 3, 4, 5],
               retiredWorkers = [1],
               workerPool = [(1, \<lparr>recentUploadFailure = 99\<rparr>), (2, \<lparr>recentUploadFailure = 0\<rparr>),
                             (3, \<lparr>recentUploadFailure = 0\<rparr>), (4, \<lparr>recentUploadFailure = 0\<rparr>),
                             (5, \<lparr>recentUploadFailure = 0\<rparr>)],
               uploads =
                 [(1, \<lparr>uwChunkIndex = 0, uwData = [1], uwFile = ''g'', uwPieceIndex = 0\<rparr>),
                  (2, \<lparr>uwChunkIndex = 0, uwData = [2], uwFile = ''g'', uwPieceIndex = 1\<rparr>),
                  (3, \<lparr>uwChunkIndex = 0, uwData = [3], uwFile = ''g'', uwPieceIndex = 2\<rparr>),
                  (4, \<lparr>uwChunkIndex = 0, uwData = [4], uwFile = ''g'', uwPieceIndex = 3\<rparr>),
                  (5, \<lparr>uwChunkIndex = 0, uwData = [5], uwFile = ''g'', uwPieceIndex = 4\<rparr>)]\<rparr>"

section \<open>Properties\<close>

subsection \<open>The example epochs\<close>

lemma exSmall_start:
  "epochStart exClock [(7, \<lparr>recentUploadFailure = 0\<rparr>)] [exFile] [''f'' \<mapsto> ''/repair/f'']
     = Inr exSmall"
  by (simp add: epochStart_def initialWorkers_def exClock_def eligible_def hour_def
      createRepairMatrix_def addFileToRepairMatrix_def exFile_def exChunk_def
      exSmall_def chunkEntry_def pieceMap_def contractMap_def contractGaps_def
      unmarked_def numGaps_def incrGap_def lookupGap_def upt_rec Let_def)

lemma exWorkers_initial: "initialWorkers exClock exWorkers = [7, 8]"
  by (simp add: initialWorkers_def exWorkers_def exClock_def eligible_def hour_def)

lemma exStart_start:
  "epochStart exClock exWorkers [exFile] [''f'' \<mapsto> ''/repair/f''] = Inr exStart"
  by (simp add: epochStart_def exWorkers_initial createRepairMatrix_def addFileToRepairMatrix_def
      exFile_def exChunk_def exStart_def chunkEntry_def pieceMap_def contractMap_def
      contractGaps_def unmarked_def numGaps_def incrGap_def lookupGap_def upt_rec Let_def
      numeral_2_eq_2)

lemma exEpoch_start:
  "epochStart exClock exPool5 [exFile2] [''g'' \<mapsto> ''/repair/g''] = Inr exEpoch"
  by (simp add: epochStart_def initialWorkers_def exPool5_def exClock_def eligible_def hour_def
      createRepairMatrix_def addFileToRepairMatrix_def exFile2_def exChunk0_def exChunk1_def
      exEpoch_def chunkEntry_def pieceMap_def contractMap_def contractGaps_def
      unmarked_def numGaps_def incrGap_def lookupGap_def upt_rec Let_def eval_nat_numeral)

subsection \<open>Results of unknown workers\<close>

text \<open>
  C10. A failure result whose worker identity is not in the worker pool changes nothing:
  the scheduler state (failure timestamps, retired list, active set, available set) and
  \<open>need\<close> stay as they are, and the wait goes on with the remaining events exactly as it
  would have without this result.
\<close>

theorem unknown_worker_failure_ignored:
  assumes "err fu" and "map_of (workerPool s) (workerID fu) = None"
  shows "handleResult fu now (s, need) = (s, need)
       \<and> waitForWorkers (Result fu now # evs) (s, need) = waitForWorkers evs (s, need)"
proof -
  have h: "handleResult fu now (s, need) = (s, need)"
    using assms by simp
  have "waitForWorkers (Result fu now # evs) (s, need) = waitForWorkers evs (s, need)"
  proof (cases "int (mapLen (availableWorkers s)) < need")
    case True
    then show ?thesis using h by simp
  next
    case False
    then show ?thesis by (cases evs) simp_all
  qed
  with h show ?thesis by simp
qed

theorem unknown_worker_failure_ignored_witness:
  "err \<lparr>workerID = 9, err = True\<rparr>
   \<and> map_of (workerPool exLarge) (workerID \<lparr>workerID = 9, err = True\<rparr>) = None
   \<and> handleResult \<lparr>workerID = 9, err = True\<rparr> 77 (exLarge, 4) = (exLarge, 4)
   \<and> waitForWorkers [Result \<lparr>workerID = 9, err = True\<rparr> 77, StopSignal] (exLarge, 4)
       = waitForWorkers [StopSignal] (exLarge, 4)"
proof -
  have a: "err \<lparr>workerID = 9, err = True\<rparr>" by simp
  have b: "map_of (workerPool exLarge) (workerID \<lparr>workerID = 9, err = True\<rparr>) = None"
    by (simp add: exLarge_def)
  from unknown_worker_failure_ignored [OF a b, of 77 4 "[StopSignal]"] a b
  show ?thesis by simp
qed

subsection \<open>The eligible workers of an epoch\<close>

lemma initialWorkers_mem:
  "w \<in> set (initialWorkers clock pool) \<longleftrightarrow> (\<exists>x. map_of pool w = Some x \<and> eligible (clock w) x)"
proof -
  have "map_of pool w = Some x \<Longrightarrow> w \<in> fst ` set pool" for x
    by (metis map_of_eq_None_iff option.distinct(1))
  then show ?thesis
    by (auto simp: initialWorkers_def split: option.splits)
qed

text \<open>
  C8. In the state with which the loop of an epoch is entered, a worker is in the
  available set if and only if it is in the pool and its failure timestamp is the zero
  value or lies more than one hour before the reading of the clock; the clock is read
  later than one hour after the zero time.
\<close>

theorem eligible_worker_set:
  assumes "hour < clock w" and "epochStart clock pool fs tracked = Inr s0"
  shows "w \<in> set (availableWorkers s0) \<longleftrightarrow>
         (\<exists>x. map_of pool w = Some x \<and>
              (recentUploadFailure x = 0 \<or> recentUploadFailure x + hour < clock w))"
proof -
  from assms(2) have "availableWorkers s0 = initialWorkers clock pool"
    by (auto simp: epochStart_def Let_def split: sum.splits)
  then show ?thesis
    using assms(1) by (auto simp: initialWorkers_mem eligible_def)
qed

theorem eligible_worker_set_witness:
  "hour < exClock 7 \<and> hour < exClock 9
   \<and> epochStart exClock exWorkers [exFile] [''f'' \<mapsto> ''/repair/f''] = Inr exStart
   \<and> map_of exWorkers 7 = Some \<lparr>recentUploadFailure = 0\<rparr>
   \<and> map_of exWorkers 9 = Some \<lparr>recentUploadFailure = 5 * hour\<rparr>
   \<and> 7 \<in> set (availableWorkers exStart)
   \<and> 9 \<notin> set (availableWorkers exStart)"
proof -
  have a: "hour < exClock w" for w by (simp add: exClock_def hour_def)
  have p: "map_of exWorkers 7 = Some \<lparr>recentUploadFailure = 0\<rparr>
         \<and> map_of exWorkers 9 = Some \<lparr>recentUploadFailure = 5 * hour\<rparr>"
    by (simp add: exWorkers_def)
  from eligible_worker_set [OF a exStart_start, of 7] p
  have x: "7 \<in> set (availableWorkers exStart)" by simp
  from eligible_worker_set [OF a exStart_start, of 9] p
  have y: "9 \<notin> set (availableWorkers exStart)" by (simp add: exClock_def hour_def)
  from a [of 7] a [of 9] exStart_start p x y show ?thesis by (simp only: simp_thms)
qed

subsection \<open>The number of workers to wait for\<close>

lemma neededWorkers_eq:
  "neededWorkers mg a v el =
     (if hour < el then (a, True) else (min (max (a - max (mg - 4) 0) (v + 1)) a, False))"
  by (simp add: neededWorkers_def Let_def min_def max_def)

text \<open>
  C6. In an iteration whose scan did not return, the scheduler waits for
  \<open>need = min (max (len Active - max (maxGaps - 4) 0) (len Available + 1)) (len Active)\<close>
  available workers; when the epoch has run for more than an hour it waits for
  \<open>len Active\<close> instead and, once that wait completes, the loop is left, without folding
  new files in.
\<close>

theorem need_and_hourly_rebuild:
  assumes "maxGapsOf (gapCounts s) = mg" and "0 < mg"
    and "scanChunks e mg (rangeOrder inp) s = (s1, c)" and "c = Continue \<or> c = Break"
    and "a = int (mapLen (activeWorkers s1))" and "v = int (mapLen (availableWorkers s1))"
  shows "repairIteration e inp s =
           afterWait inp (hour < elapsed inp)
             (waitForWorkers (events inp)
                (s1, if hour < elapsed inp then a
                     else min (max (a - max (int mg - 4) 0) (v + 1)) a))
       \<and> (hour < elapsed inp \<longrightarrow>
            (\<forall>s2 n. waitForWorkers (events inp) (s1, a) = ((s2, n), Enough) \<longrightarrow>
                    repairIteration e inp s = (s2, EpochEnded)))"
proof -
  have body: "repairIteration e inp s = iterationBody e inp s"
    by (simp add: repairIteration_def split: selectExit.splits)
  have it: "iterationBody e inp s =
           afterWait inp (hour < elapsed inp)
             (waitForWorkers (events inp)
                (s1, if hour < elapsed inp then a
                     else min (max (a - max (int mg - 4) 0) (v + 1)) a))"
    using assms by (auto simp: iterationBody_def Let_def neededWorkers_eq)
  show ?thesis unfolding body it by auto
qed

theorem need_and_hourly_rebuild_witness:
  "maxGapsOf (gapCounts exLarge) = 5 \<and> (0::nat) < 5
   \<and> snd (scanChunks exEnv 5 (rangeOrder exHourInput) exLarge) = Continue
   \<and> hour < elapsed exHourInput
   \<and> snd (waitForWorkers (events exHourInput)
             (fst (scanChunks exEnv 5 (rangeOrder exHourInput) exLarge), 4)) = Enough
   \<and> snd (repairIteration exEnv exHourInput exLarge) = EpochEnded
   \<and> availableWorkers (fst (repairIteration exEnv exHourInput exLarge)) = [5, 4, 2]"
proof -
  let ?sc = "scanChunks exEnv 5 (rangeOrder exHourInput) exLarge"
  let ?w = "waitForWorkers (events exHourInput) (fst ?sc, 4)"
  have a: "maxGapsOf (gapCounts exLarge) = 5" by code_simp
  have b: "(0::nat) < 5" by simp
  have c: "snd ?sc = Continue" by code_simp
  have c': "?sc = (fst ?sc, Continue)" using c by (metis prod.collapse)
  have d: "hour < elapsed exHourInput" by code_simp
  have m1: "4 = int (mapLen (activeWorkers (fst ?sc)))" by code_simp
  have m2: "0 = int (mapLen (availableWorkers (fst ?sc)))" by code_simp
  have w: "snd ?w = Enough" by code_simp
  have w': "?w = ((fst (fst ?w), snd (fst ?w)), Enough)" using w by (metis prod.collapse)
  have av: "availableWorkers (fst (fst ?w)) = [5, 4, 2]" by code_simp
  from need_and_hourly_rebuild [OF a b c' _ m1 m2] d w'
  have "repairIteration exEnv exHourInput exLarge = (fst (fst ?w), EpochEnded)" by blast
  with a b c d w av show ?thesis by simp
qed

subsection \<open>The stop check at the head of an iteration\<close>

lemma afterWait_stopFired:
  "afterWait (inp\<lparr>stopFired := b\<rparr>) newMatrix r = afterWait inp newMatrix r"
proof -
  obtain s need w where r: "r = ((s, need), w)" by (metis surj_pair)
  show ?thesis unfolding r by (cases w) simp_all
qed

lemma stop_check_falls_through:
  "repairIteration e (inp\<lparr>stopFired := True\<rparr>) s = repairIteration e (inp\<lparr>stopFired := False\<rparr>) s"
proof -
  have "iterationBody e (inp\<lparr>stopFired := b\<rparr>) s = iterationBody e inp s" for b
    by (simp add: iterationBody_def afterWait_stopFired Let_def split: prod.splits ctl.splits)
  moreover have "repairIteration e i s = iterationBody e i s" for i
    by (simp add: repairIteration_def split: selectExit.splits)
  ultimately show ?thesis by simp
qed

text \<open>
  C1. The claim is that an iteration entered after the stop signal has fired ends the
  epoch at once, with no scan, dispatch or mutation. The \<^verbatim>\<open>break\<close> of line 188 leaves
  only the \<^verbatim>\<open>select\<close>, so the iteration runs on as without the signal
  (\<open>stop_check_falls_through\<close>). Evaluated on two runs. In the first, the second
  iteration of an epoch is entered with the signal fired: the scan cuts the retired
  worker 1 out of the missing contracts of chunk 1 before the wait observes the signal.
  In the second, the first iteration of an epoch is entered with the signal fired and the
  \<^verbatim>\<open>select\<close> of line 310 takes the send: a work item is handed to worker 7 and the worker
  leaves the available set.
\<close>

theorem stop_before_iteration_evaluated:
  "epochStart exClock exPool5 [exFile2] [''g'' \<mapsto> ''/repair/g''] = Inr exEpoch
   \<and> snd (repairLoop exEnv2 [exIter1] exEpoch) = NextIteration
   \<and> repairMatrix (fst (repairLoop exEnv2 [exIter1] exEpoch)) exChunk1
       = Some \<lparr>contracts = [1, 2, 3, 4, 5], pieces = [0, 1, 2, 3, 4], numGapsField = 0\<rparr>
   \<and> stopFired exIter2Stopped
   \<and> repairMatrix (fst (repairIteration exEnv2 exIter2Stopped (fst (repairLoop exEnv2 [exIter1] exEpoch))))
         exChunk1
       = Some \<lparr>contracts = [2, 3, 4, 5], pieces = [0, 1, 2, 3, 4], numGapsField = 0\<rparr>
   \<and> snd (repairIteration exEnv2 exIter2Stopped (fst (repairLoop exEnv2 [exIter1] exEpoch))) = Returned
   \<and> epochStart exClock [(7, \<lparr>recentUploadFailure = 0\<rparr>)] [exFile] [''f'' \<mapsto> ''/repair/f'']
       = Inr exSmall
   \<and> stopFired exStopInput
   \<and> uploads exSmall = []
   \<and> uploads (fst (repairIteration exEnv exStopInput exSmall))
       = [(7, \<lparr>uwChunkIndex = 0, uwData = [1], uwFile = ''f'', uwPieceIndex = 0\<rparr>)]
   \<and> availableWorkers (fst (repairIteration exEnv exStopInput exSmall)) = []"
proof -
  note a = exEpoch_start
  note b = exSmall_start
  have c: "snd (repairLoop exEnv2 [exIter1] exEpoch) = NextIteration
   \<and> repairMatrix (fst (repairLoop exEnv2 [exIter1] exEpoch)) exChunk1
       = Some \<lparr>contracts = [1, 2, 3, 4, 5], pieces = [0, 1, 2, 3, 4], numGapsField = 0\<rparr>
   \<and> stopFired exIter2Stopped
   \<and> repairMatrix (fst (repairIteration exEnv2 exIter2Stopped (fst (repairLoop exEnv2 [exIter1] exEpoch))))
         exChunk1
       = Some \<lparr>contracts = [2, 3, 4, 5], pieces = [0, 1, 2, 3, 4], numGapsField = 0\<rparr>
   \<and> snd (repairIteration exEnv2 exIter2Stopped (fst (repairLoop exEnv2 [exIter1] exEpoch))) = Returned"
    by code_simp
  have d: "stopFired exStopInput
   \<and> uploads exSmall = []
   \<and> uploads (fst (repairIteration exEnv exStopInput exSmall))
       = [(7, \<lparr>uwChunkIndex = 0, uwData = [1], uwFile = ''f'', uwPieceIndex = 0\<rparr>)]
   \<and> availableWorkers (fst (repairIteration exEnv exStopInput exSmall)) = []"
    by code_simp
  from a b c d show ?thesis by (simp only: simp_thms)
qed

subsection \<open>The histogram after a scan\<close>

text \<open>
  C2. The claim is that after every mutation the bucket counting a chunk is the one of
  its gap count. Evaluated on an epoch with two chunks, both counted under 5 at its
  start. After the first iteration has handed out all pieces of chunk 0, that chunk has
  gap count 0 while bucket 5 still counts two chunks and bucket 0 none. After the second
  iteration has cut the retired worker out of chunk 1, that chunk has gap count 4 and the
  histogram is the same as before (the test of line 236 can never hold, see
  \<open>deferChunk\<close>).
\<close>

theorem histogram_out_of_step_evaluated:
  "epochStart exClock exPool5 [exFile2] [''g'' \<mapsto> ''/repair/g''] = Inr exEpoch
   \<and> snd (repairLoop exEnv2 [exIter1] exEpoch) = NextIteration
   \<and> map_option numGaps (repairMatrix (fst (repairLoop exEnv2 [exIter1] exEpoch)) exChunk0) = Some 0
   \<and> map_option numGaps (repairMatrix (fst (repairLoop exEnv2 [exIter1] exEpoch)) exChunk1) = Some 5
   \<and> lookupGap (gapCounts (fst (repairLoop exEnv2 [exIter1] exEpoch))) 5 = 2
   \<and> lookupGap (gapCounts (fst (repairLoop exEnv2 [exIter1] exEpoch))) 0 = 0
   \<and> snd (repairLoop exEnv2 [exIter1, exIter2] exEpoch) = Returned
   \<and> map_option numGaps (repairMatrix (fst (repairLoop exEnv2 [exIter1, exIter2] exEpoch)) exChunk0)
       = Some 0
   \<and> map_option numGaps (repairMatrix (fst (repairLoop exEnv2 [exIter1, exIter2] exEpoch)) exChunk1)
       = Some 4
   \<and> gapCounts (fst (repairLoop exEnv2 [exIter1, exIter2] exEpoch)) = [(5, 2), (0, 0)]"
proof -
  note a = exEpoch_start
  have b: "snd (repairLoop exEnv2 [exIter1] exEpoch) = NextIteration
   \<and> map_option numGaps (repairMatrix (fst (repairLoop exEnv2 [exIter1] exEpoch)) exChunk0) = Some 0
   \<and> map_option numGaps (repairMatrix (fst (repairLoop exEnv2 [exIter1] exEpoch)) exChunk1) = Some 5
   \<and> lookupGap (gapCounts (fst (repairLoop exEnv2 [exIter1] exEpoch))) 5 = 2
   \<and> lookupGap (gapCounts (fst (repairLoop exEnv2 [exIter1] exEpoch))) 0 = 0"
    by code_simp
  have c: "snd (repairLoop exEnv2 [exIter1, exIter2] exEpoch) = Returned
   \<and> map_option numGaps (repairMatrix (fst (repairLoop exEnv2 [exIter1, exIter2] exEpoch)) exChunk0)
       = Some 0
   \<and> map_option numGaps (repairMatrix (fst (repairLoop exEnv2 [exIter1, exIter2] exEpoch)) exChunk1)
       = Some 4
   \<and> gapCounts (fst (repairLoop exEnv2 [exIter1, exIter2] exEpoch)) = [(5, 2), (0, 0)]"
    by code_simp
  from a b c show ?thesis by (simp only: simp_thms)
qed

subsection \<open>A failing encryption\<close>

text \<open>
  C7. The claim is that a chunk with a piece whose encryption fails is skipped. The
  \<^verbatim>\<open>continue\<close> of line 293 continues the loop over the pieces. Evaluated at the start of
  an epoch with an encryption that fails on every piece: the scan hands a work item of
  the chunk to worker 7, carrying the value the failed encryption returned, and ends
  with \<^verbatim>\<open>break\<close>.
\<close>

theorem encrypt_failure_evaluated:
  "epochStart exClock [(7, \<lparr>recentUploadFailure = 0\<rparr>)] [exFile] [''f'' \<mapsto> ''/repair/f'']
     = Inr exSmall
   \<and> snd (encryptBytes exEnvEncryptFails exFile 0 0 [1])
   \<and> maxGapsOf (gapCounts exSmall) = 1
   \<and> uploads exSmall = []
   \<and> scanChunks exEnvEncryptFails 1 [exChunk] exSmall
       = (exSmall\<lparr>repairMatrix := [exChunk \<mapsto> \<lparr>contracts = [], pieces = [1], numGapsField = 0\<rparr>],
                  gapCounts := [(1, 1), (0, 0)],
                  availableWorkers := [],
                  uploads := [(7, \<lparr>uwChunkIndex = 0, uwData = [], uwFile = ''f'', uwPieceIndex = 0\<rparr>)]\<rparr>,
          Break)"
proof -
  have "snd (encryptBytes exEnvEncryptFails exFile 0 0 [1])
   \<and> maxGapsOf (gapCounts exSmall) = 1
   \<and> uploads exSmall = []
   \<and> scanChunks exEnvEncryptFails 1 [exChunk] exSmall
       = (exSmall\<lparr>repairMatrix := [exChunk \<mapsto> \<lparr>contracts = [], pieces = [1], numGapsField = 0\<rparr>],
                  gapCounts := [(1, 1), (0, 0)],
                  availableWorkers := [],
                  uploads := [(7, \<lparr>uwChunkIndex = 0, uwData = [], uwFile = ''f'', uwPieceIndex = 0\<rparr>)]\<rparr>,
          Break)"
    by (simp add: exEnvEncryptFails_def exEnv_def exSmall_def exChunk_def exFile_def maxGapsOf_def
        processChunk_def usefulWorkers_def repairChunk_def encryptPieces_def incrGap_def decrGap_def
        lookupGap_def workItem_def Let_def)
  with exSmall_start show ?thesis by (simp only: simp_thms)
qed

subsection \<open>Running the builder again\<close>

lemma lookupGap_incrGap:
  "lookupGap (incrGap k gc) j = lookupGap gc j + (if j = k then 1 else 0)"
  by (simp add: lookupGap_def incrGap_def update_conv')

lemma lookupGap_decrGap:
  "lookupGap (decrGap k gc) j = lookupGap gc j - (if j = k then 1 else 0)"
  by (simp add: lookupGap_def decrGap_def update_conv')

lemma addChunks_shape:
  "(\<exists>x. \<forall>st. addChunks f ws is st = Inl x)
   \<or> (\<exists>M H. \<forall>rm gc. \<exists>gc'. addChunks f ws is (rm, gc) = Inr (rm ++ M, gc')
                          \<and> (\<forall>k. lookupGap gc' k = lookupGap gc k + H k))"
proof (induction "is")
  case Nil
  show ?case
    by (rule disjI2, rule exI [of _ Map.empty], rule exI [of _ "\<lambda>k. 0"]) simp
next
  case (Cons i "is")
  show ?case
  proof (cases "chunkEntry f ws i")
    case (Inl x)
    then have "addChunks f ws (i # is) st = Inl x" for st
      by (cases st) simp
    then have "\<forall>st. addChunks f ws (i # is) st = Inl x" ..
    then have "\<exists>x. \<forall>st. addChunks f ws (i # is) st = Inl x" ..
    then show ?thesis ..
  next
    case (Inr entry)
    show ?thesis
    proof (cases entry)
      case None
      with Inr have "addChunks f ws (i # is) st = addChunks f ws is st" for st
        by (cases st) simp
      then have "addChunks f ws (i # is) = addChunks f ws is" by (rule ext)
      then show ?thesis using Cons.IH by (simp only:)
    next
      case (Some g)
      let ?cid = "\<lparr>chunkIndex = i, filename = name f\<rparr>"
      have step: "addChunks f ws (i # is) (rm, gc)
                  = addChunks f ws is (rm(?cid \<mapsto> g), incrGap (numGaps g) gc)" for rm gc
        using Inr Some by simp
      from Cons.IH show ?thesis
      proof
        assume "\<exists>x. \<forall>st. addChunks f ws is st = Inl x"
        then obtain x where x: "\<forall>st. addChunks f ws is st = Inl x" ..
        have "addChunks f ws (i # is) st = Inl x" for st
          using step x by (cases st) simp
        then have "\<forall>st. addChunks f ws (i # is) st = Inl x" ..
        then have "\<exists>x. \<forall>st. addChunks f ws (i # is) st = Inl x" ..
        then show ?thesis ..
      next
        assume "\<exists>M H. \<forall>rm gc. \<exists>gc'. addChunks f ws is (rm, gc) = Inr (rm ++ M, gc')
                          \<and> (\<forall>k. lookupGap gc' k = lookupGap gc k + H k)"
        then obtain M where "\<exists>H. \<forall>rm gc. \<exists>gc'. addChunks f ws is (rm, gc) = Inr (rm ++ M, gc')
                          \<and> (\<forall>k. lookupGap gc' k = lookupGap gc k + H k)" ..
        then obtain H where MH: "\<forall>rm gc. \<exists>gc'. addChunks f ws is (rm, gc) = Inr (rm ++ M, gc')
                          \<and> (\<forall>k. lookupGap gc' k = lookupGap gc k + H k)" ..
        have "\<exists>gc'. addChunks f ws (i # is) (rm, gc) = Inr (rm ++ ([?cid \<mapsto> g] ++ M), gc')
                 \<and> (\<forall>k. lookupGap gc' k
                         = lookupGap gc k + ((if k = numGaps g then 1 else 0) + H k))" for rm gc
        proof -
          from MH have "\<exists>gc'. addChunks f ws is (rm(?cid \<mapsto> g), incrGap (numGaps g) gc)
                                 = Inr (rm(?cid \<mapsto> g) ++ M, gc')
                   \<and> (\<forall>k. lookupGap gc' k = lookupGap (incrGap (numGaps g) gc) k + H k)"
            by (simp only:)
          then obtain gc' where gh: "addChunks f ws is (rm(?cid \<mapsto> g), incrGap (numGaps g) gc)
                                 = Inr (rm(?cid \<mapsto> g) ++ M, gc')
                   \<and> (\<forall>k. lookupGap gc' k = lookupGap (incrGap (numGaps g) gc) k + H k)" ..
          have m: "rm(?cid \<mapsto> g) ++ M = rm ++ ([?cid \<mapsto> g] ++ M)"
            by (rule ext) (simp add: map_add_def split: option.splits)
          have "addChunks f ws (i # is) (rm, gc) = Inr (rm ++ ([?cid \<mapsto> g] ++ M), gc')
                 \<and> (\<forall>k. lookupGap gc' k
                         = lookupGap gc k + ((if k = numGaps g then 1 else 0) + H k))"
            using gh unfolding step m by (simp add: lookupGap_incrGap)
          then show ?thesis ..
        qed
        then have "\<forall>rm gc. \<exists>gc'. addChunks f ws (i # is) (rm, gc) = Inr (rm ++ ([?cid \<mapsto> g] ++ M), gc')
                 \<and> (\<forall>k. lookupGap gc' k
                         = lookupGap gc k + (\<lambda>k. (if k = numGaps g then 1 else 0) + H k) k)"
          by simp
        then show ?thesis
          by (intro disjI2 exI [of _ "[?cid \<mapsto> g] ++ M"]
                exI [of _ "\<lambda>k. (if k = numGaps g then 1 else 0) + H k"])
      qed
    qed
  qed
qed

lemma addChunks_untouched:
  "addChunks f ws is (rm, gc) = Inr (rm', gc') \<Longrightarrow> chunkIndex cid \<notin> set is \<or> filename cid \<noteq> name f
   \<Longrightarrow> rm' cid = rm cid"
proof (induction "is" arbitrary: rm gc)
  case Nil
  then show ?case by simp
next
  case (Cons i "is")
  show ?case
  proof (cases "chunkEntry f ws i")
    case (Inl x)
    with Cons.prems show ?thesis by simp
  next
    case (Inr entry)
    show ?thesis
    proof (cases entry)
      case None
      with Inr Cons show ?thesis by auto
    next
      case (Some g)
      with Inr Cons.prems(1)
      have "addChunks f ws is (rm(\<lparr>chunkIndex = i, filename = name f\<rparr> \<mapsto> g), incrGap (numGaps g) gc)
              = Inr (rm', gc')" by simp
      from Cons.IH [OF this] Cons.prems(2)
      have "rm' cid = (rm(\<lparr>chunkIndex = i, filename = name f\<rparr> \<mapsto> g)) cid" by auto
      moreover have "cid \<noteq> \<lparr>chunkIndex = i, filename = name f\<rparr>"
        using Cons.prems(2) by auto
      ultimately show ?thesis by simp
    qed
  qed
qed

lemma addChunks_entry:
  "addChunks f ws is (rm, gc) = Inr (rm', gc') \<Longrightarrow> i \<in> set is \<Longrightarrow> chunkEntry f ws i = Inr (Some g)
   \<Longrightarrow> rm' \<lparr>chunkIndex = i, filename = name f\<rparr> = Some g"
proof (induction "is" arbitrary: rm gc)
  case Nil
  then show ?case by simp
next
  case (Cons j "is")
  show ?case
  proof (cases "i \<in> set is")
    case True
    show ?thesis
    proof (cases "chunkEntry f ws j")
      case (Inl x)
      with Cons.prems show ?thesis by simp
    next
      case (Inr entry)
      with Cons.prems(1) obtain rm0 gc0 where "addChunks f ws is (rm0, gc0) = Inr (rm', gc')"
        by (cases entry) auto
      from Cons.IH [OF this True Cons.prems(3)] show ?thesis .
    qed
  next
    case False
    with Cons.prems(2) have ij: "j = i" by simp
    with Cons.prems have "addChunks f ws is (rm(\<lparr>chunkIndex = i, filename = name f\<rparr> \<mapsto> g),
                               incrGap (numGaps g) gc) = Inr (rm', gc')" by simp
    from addChunks_untouched [OF this, of "\<lparr>chunkIndex = i, filename = name f\<rparr>"] False
    show ?thesis by simp
  qed
qed

text \<open>
  C3 as claimed fails: run twice from the empty matrix over a file with one chunk and no
  stored piece, the builder counts the chunk twice under gap count 2.
\<close>

theorem builder_rerun_counterexample:
  "addFileToRepairMatrix exFile [1, 2] (Map.empty, [])
     = Inr ([exChunk \<mapsto> \<lparr>contracts = [1, 2], pieces = [0, 1], numGapsField = 0\<rparr>], [(2, 1)])
   \<and> addFileToRepairMatrix exFile [1, 2]
       ([exChunk \<mapsto> \<lparr>contracts = [1, 2], pieces = [0, 1], numGapsField = 0\<rparr>], [(2, 1)])
     = Inr ([exChunk \<mapsto> \<lparr>contracts = [1, 2], pieces = [0, 1], numGapsField = 0\<rparr>], [(2, 2)])"
  by (simp add: addFileToRepairMatrix_def exFile_def exChunk_def chunkEntry_def pieceMap_def
      contractMap_def contractGaps_def unmarked_def numGaps_def incrGap_def lookupGap_def upt_rec)

text \<open>
  C3, as the code has it. A second run of the builder over the same file and the same
  worker list, started from the result of the first, overwrites the entry of every
  chunk of the file that lacks pieces with a freshly computed record, whatever the
  matrix held for it before; as nothing touched the entries in between, the matrix is
  the same as after the first run. Each bucket of the histogram is raised again by as
  much as the first run raised it.
\<close>

theorem builder_rerun:
  assumes "addFileToRepairMatrix f ws (rm, gc) = Inr (rm1, gc1)"
  shows "\<exists>gc2. addFileToRepairMatrix f ws (rm1, gc1) = Inr (rm1, gc2)
            \<and> (\<forall>k. lookupGap gc2 k = lookupGap gc1 k + (lookupGap gc1 k - lookupGap gc k))
            \<and> (\<forall>i g. i < numChunks f \<and> chunkEntry f ws i = Inr (Some g)
                  \<longrightarrow> rm1 \<lparr>chunkIndex = i, filename = name f\<rparr> = Some g)"
proof -
  let ?is = "[0..<numChunks f]"
  from assms have run: "addChunks f ws ?is (rm, gc) = Inr (rm1, gc1)"
    by (simp add: addFileToRepairMatrix_def)
  have "\<not> (\<exists>x. \<forall>st. addChunks f ws ?is st = Inl x)"
  proof
    assume "\<exists>x. \<forall>st. addChunks f ws ?is st = Inl x"
    then obtain x where "\<forall>st. addChunks f ws ?is st = Inl x" ..
    then have "addChunks f ws ?is (rm, gc) = Inl x" ..
    with run show False by simp
  qed
  then have "\<exists>M H. \<forall>rm gc. \<exists>gc'. addChunks f ws ?is (rm, gc) = Inr (rm ++ M, gc')
                          \<and> (\<forall>k. lookupGap gc' k = lookupGap gc k + H k)"
    using addChunks_shape [of f ws ?is] by (simp only: simp_thms)
  then obtain M where "\<exists>H. \<forall>rm gc. \<exists>gc'. addChunks f ws ?is (rm, gc) = Inr (rm ++ M, gc')
                          \<and> (\<forall>k. lookupGap gc' k = lookupGap gc k + H k)" ..
  then obtain H where MH: "\<forall>rm gc. \<exists>gc'. addChunks f ws ?is (rm, gc) = Inr (rm ++ M, gc')
                          \<and> (\<forall>k. lookupGap gc' k = lookupGap gc k + H k)" ..
  from MH have "\<exists>gc'. addChunks f ws ?is (rm, gc) = Inr (rm ++ M, gc')
                          \<and> (\<forall>k. lookupGap gc' k = lookupGap gc k + H k)"
    by (simp only:)
  with run have rm1: "rm1 = rm ++ M" and gc1: "\<forall>k. lookupGap gc1 k = lookupGap gc k + H k"
    by simp_all
  from MH have "\<exists>gc2. addChunks f ws ?is (rm1, gc1) = Inr (rm1 ++ M, gc2)
                          \<and> (\<forall>k. lookupGap gc2 k = lookupGap gc1 k + H k)"
    by (simp only:)
  then obtain gc2 where second: "addChunks f ws ?is (rm1, gc1) = Inr (rm1 ++ M, gc2)
                          \<and> (\<forall>k. lookupGap gc2 k = lookupGap gc1 k + H k)" ..
  have same: "rm1 ++ M = rm1"
    unfolding rm1 by (rule ext) (simp add: map_add_def split: option.splits)
  have entries: "\<forall>i g. i < numChunks f \<and> chunkEntry f ws i = Inr (Some g)
                  \<longrightarrow> rm1 \<lparr>chunkIndex = i, filename = name f\<rparr> = Some g"
    using addChunks_entry [OF run] by simp
  have "addFileToRepairMatrix f ws (rm1, gc1) = Inr (rm1, gc2)
            \<and> (\<forall>k. lookupGap gc2 k = lookupGap gc1 k + (lookupGap gc1 k - lookupGap gc k))
            \<and> (\<forall>i g. i < numChunks f \<and> chunkEntry f ws i = Inr (Some g)
                  \<longrightarrow> rm1 \<lparr>chunkIndex = i, filename = name f\<rparr> = Some g)"
    using second gc1 entries unfolding same by (simp add: addFileToRepairMatrix_def)
  then show ?thesis ..
qed

theorem builder_rerun_witness:
  "addFileToRepairMatrix exFile [1, 2] (Map.empty, [])
     = Inr ([exChunk \<mapsto> \<lparr>contracts = [1, 2], pieces = [0, 1], numGapsField = 0\<rparr>], [(2, 1)])
   \<and> (\<exists>gc2. addFileToRepairMatrix exFile [1, 2]
               ([exChunk \<mapsto> \<lparr>contracts = [1, 2], pieces = [0, 1], numGapsField = 0\<rparr>], [(2, 1)])
             = Inr ([exChunk \<mapsto> \<lparr>contracts = [1, 2], pieces = [0, 1], numGapsField = 0\<rparr>], gc2)
           \<and> lookupGap gc2 2 = 2)"
proof -
  have a: "addFileToRepairMatrix exFile [1, 2] (Map.empty, [])
     = Inr ([exChunk \<mapsto> \<lparr>contracts = [1, 2], pieces = [0, 1], numGapsField = 0\<rparr>], [(2, 1)])"
    by (simp add: addFileToRepairMatrix_def exFile_def exChunk_def chunkEntry_def pieceMap_def
      contractMap_def contractGaps_def unmarked_def numGaps_def incrGap_def lookupGap_def upt_rec)
  from builder_rerun [OF a] obtain gc2 where
    "addFileToRepairMatrix exFile [1, 2]
               ([exChunk \<mapsto> \<lparr>contracts = [1, 2], pieces = [0, 1], numGapsField = 0\<rparr>], [(2, 1)])
             = Inr ([exChunk \<mapsto> \<lparr>contracts = [1, 2], pieces = [0, 1], numGapsField = 0\<rparr>], gc2)"
    and "\<forall>k. lookupGap gc2 k = lookupGap [(2, 1)] k + (lookupGap [(2, 1)] k - lookupGap [] k)"
    by (elim exE conjE)
  then have "addFileToRepairMatrix exFile [1, 2]
               ([exChunk \<mapsto> \<lparr>contracts = [1, 2], pieces = [0, 1], numGapsField = 0\<rparr>], [(2, 1)])
             = Inr ([exChunk \<mapsto> \<lparr>contracts = [1, 2], pieces = [0, 1], numGapsField = 0\<rparr>], gc2)
           \<and> lookupGap gc2 2 = 2"
    by (simp add: lookupGap_def)
  then have "\<exists>gc2. addFileToRepairMatrix exFile [1, 2]
               ([exChunk \<mapsto> \<lparr>contracts = [1, 2], pieces = [0, 1], numGapsField = 0\<rparr>], [(2, 1)])
             = Inr ([exChunk \<mapsto> \<lparr>contracts = [1, 2], pieces = [0, 1], numGapsField = 0\<rparr>], gc2)
           \<and> lookupGap gc2 2 = 2"
    by (rule exI)
  with a show ?thesis by (rule conjI)
qed

subsection \<open>Workers removed from lists\<close>

lemma set_fold_remove1_subset: "set (fold remove1 xs cs) \<subseteq> set cs"
proof (induction xs arbitrary: cs)
  case Nil
  show ?case by simp
next
  case (Cons x xs)
  have "set (fold remove1 xs (remove1 x cs)) \<subseteq> set (remove1 x cs)" by (rule Cons.IH)
  also have "\<dots> \<subseteq> set cs" by (rule set_remove1_subset)
  finally show ?case by simp
qed

lemma set_fold_remove1_keeps: "set cs - set xs \<subseteq> set (fold remove1 xs cs)"
proof (induction xs arbitrary: cs)
  case Nil
  show ?case by simp
next
  case (Cons x xs)
  have "set cs - set (x # xs) \<subseteq> set (remove1 x cs) - set xs" by auto
  also have "\<dots> \<subseteq> set (fold remove1 xs (remove1 x cs))" by (rule Cons.IH)
  finally show ?case by simp
qed

lemma distinct_fold_remove1: "distinct cs \<Longrightarrow> distinct (fold remove1 xs cs)"
  by (induction xs arbitrary: cs) simp_all




lemma map_zip_index:
  "map g (zip xs ys) = map (\<lambda>i. g (xs ! i, ys ! i)) [0..<min (length xs) (length ys)]"
  by (rule nth_equalityI) simp_all

lemma usefulWorkers_set:
  "set (usefulWorkers av cg) = set av \<inter> set (contracts cg)"
  by (auto simp: usefulWorkers_def)

lemma usefulWorkers_distinct:
  "distinct (contracts cg) \<Longrightarrow> distinct (usefulWorkers av cg)"
proof -
  assume d: "distinct (contracts cg)"
  have one: "distinct (map (\<lambda>contract. w) (filter (\<lambda>contract. w = contract) cs))"
    if "distinct cs" for w :: fcid and cs
    using that by (induction cs) auto
  have sets: "set (map (\<lambda>contract. w) (filter (\<lambda>contract. w = contract) cs)) \<subseteq> {w}"
    for w :: fcid and cs by auto
  have "distinct (concat (map (\<lambda>w. map (\<lambda>contract. w) (filter (\<lambda>contract. w = contract) cs)) ws))"
    if "distinct ws" "distinct cs" for ws cs :: "fcid list"
    using that
  proof (induction ws)
    case Nil
    show ?case by simp
  next
    case (Cons a ws)
    then show ?case using one [of cs a] by auto
  qed
  with d show ?thesis by (simp add: usefulWorkers_def)
qed

subsection \<open>The dispatch of an accepted chunk\<close>



lemma sendPieces_all_sent:
  assumes "\<forall>(w, p) \<in> set zs. p < length ps \<and> map_of (workerPool s) w \<noteq> None
                              \<and> sendBeforeStop e w (workItem cid ps p)"
  shows "sendPieces e cid ps zs (cg, s)
         = ((cg\<lparr>contracts := fold remove1 (map fst zs) (contracts cg)\<rparr>,
             s\<lparr>availableWorkers := fold removeAll (map fst zs) (availableWorkers s),
               uploads := uploads s @ map (\<lambda>(w, p). (w, workItem cid ps p)) zs\<rparr>),
            Continue)"
  using assms
proof (induction zs arbitrary: cg s)
  case Nil
  show ?case by simp
next
  case (Cons z zs)
  obtain w p where z: "z = (w, p)" by (cases z)
  from Cons.prems z have p: "p < length ps" and send: "sendBeforeStop e w (workItem cid ps p)"
    and pool: "map_of (workerPool s) w \<noteq> None"
    by simp_all
  let ?cg = "cg\<lparr>contracts := remove1 w (contracts cg)\<rparr>"
  let ?s = "s\<lparr>availableWorkers := removeAll w (availableWorkers s),
              uploads := uploads s @ [(w, workItem cid ps p)]\<rparr>"
  have rest: "\<forall>(w, p) \<in> set zs. p < length ps \<and> map_of (workerPool ?s) w \<noteq> None
                              \<and> sendBeforeStop e w (workItem cid ps p)"
    using Cons.prems by simp
  have "sendPieces e cid ps (z # zs) (cg, s) = sendPieces e cid ps zs (?cg, ?s)"
    using p send pool by (auto simp: z)
  also note Cons.IH [OF rest]
  finally show ?case by (simp add: z)
qed

text \<open>
  When the stop signal wins a send, the work items before it have been sent and the
  loop is left with \<^verbatim>\<open>return\<close>.
\<close>

lemma sendPieces_stopped:
  assumes "\<forall>(w, p) \<in> set zs. p < length ps \<and> map_of (workerPool s) w \<noteq> None
                              \<and> sendBeforeStop e w (workItem cid ps p)"
    and "q < length ps" and "map_of (workerPool s) v \<noteq> None"
    and "\<not> sendBeforeStop e v (workItem cid ps q)"
  shows "sendPieces e cid ps (zs @ (v, q) # rest) (cg, s)
         = ((cg\<lparr>contracts := fold remove1 (map fst zs) (contracts cg)\<rparr>,
             s\<lparr>availableWorkers := fold removeAll (map fst zs) (availableWorkers s),
               uploads := uploads s @ map (\<lambda>(w, p). (w, workItem cid ps p)) zs\<rparr>),
            Return)"
  using assms
proof (induction zs arbitrary: cg s)
  case Nil
  then show ?case by auto
next
  case (Cons z zs)
  obtain w p where z: "z = (w, p)" by (cases z)
  from Cons.prems z have p: "p < length ps" and send: "sendBeforeStop e w (workItem cid ps p)"
    and pool: "map_of (workerPool s) w \<noteq> None"
    by simp_all
  let ?cg = "cg\<lparr>contracts := remove1 w (contracts cg)\<rparr>"
  let ?s = "s\<lparr>availableWorkers := removeAll w (availableWorkers s),
              uploads := uploads s @ [(w, workItem cid ps p)]\<rparr>"
  have rest: "\<forall>(w, p) \<in> set zs. p < length ps \<and> map_of (workerPool ?s) w \<noteq> None
                              \<and> sendBeforeStop e w (workItem cid ps p)"
    using Cons.prems by simp
  have v: "map_of (workerPool ?s) v \<noteq> None" using Cons.prems(3) by simp
  have "sendPieces e cid ps ((z # zs) @ (v, q) # rest) (cg, s)
        = sendPieces e cid ps (zs @ (v, q) # rest) (?cg, ?s)"
    using p send pool by (auto simp: z)
  also note Cons.IH [OF rest Cons.prems(2) v Cons.prems(4)]
  finally show ?case by (simp add: z)
qed

text \<open>
  Lines 245 to 335 when the source is read and encoded and every send is taken: what
  \<open>repairChunk\<close> returns.
\<close>

lemma repairChunk_sends:
  assumes "files e (filename cid) = Some f" and "tracking e (filename cid) = Some path"
    and "openFile e path" and "readAt e path (chunkIndex cid) = Some chunk"
    and "encode e f chunk = Some ps"
    and "enc = encryptPieces e f (chunkIndex cid) ps"
    and "k = min (length useful) (length (pieces cg))"
    and "\<forall>i<k. pieces cg ! i < length enc \<and> map_of (workerPool s) (useful ! i) \<noteq> None
               \<and> sendBeforeStop e (useful ! i) (workItem cid enc (pieces cg ! i))"
    and "cs = fold remove1 (take k useful) (contracts cg)"
    and "cg1 = cg\<lparr>contracts := cs, pieces := drop k (pieces cg),
                   numGapsField := min (length cs) (length (pieces cg) - k)\<rparr>"
  shows "repairChunk e cid cg useful s
         = (s\<lparr>repairMatrix := (repairMatrix s)(cid \<mapsto> cg1),
              gapCounts := incrGap (numGaps cg1) (decrGap (numGapsField cg) (gapCounts s)),
              availableWorkers := fold removeAll (take k useful) (availableWorkers s),
              uploads := uploads s
                @ map (\<lambda>i. (useful ! i, workItem cid enc (pieces cg ! i))) [0..<k]\<rparr>,
            Break)"
proof -
  let ?zs = "zip useful (pieces cg)"
  have fstz: "map fst ?zs = take k useful"
    by (simp add: assms(7) map_fst_zip_take)
  have sends: "\<forall>(w, p) \<in> set ?zs. p < length enc \<and> map_of (workerPool s) w \<noteq> None
                              \<and> sendBeforeStop e w (workItem cid enc p)"
  proof (clarify)
    fix w p assume "(w, p) \<in> set ?zs"
    then obtain i where i: "useful ! i = w" "pieces cg ! i = p" "i < length useful"
      "i < length (pieces cg)" by (auto simp: in_set_zip)
    then have "i < k" by (simp add: assms(7))
    with assms(8) i show "p < length enc \<and> map_of (workerPool s) w \<noteq> None
                              \<and> sendBeforeStop e w (workItem cid enc p)" by auto
  qed
  have ups: "map (\<lambda>(w, p). (w, workItem cid enc p)) ?zs
             = map (\<lambda>i. (useful ! i, workItem cid enc (pieces cg ! i))) [0..<k]"
    unfolding assms(7) by (simp add: map_zip_index)
  have sent: "sendPieces e cid enc ?zs (cg, s)
         = ((cg\<lparr>contracts := cs\<rparr>,
             s\<lparr>availableWorkers := fold removeAll (take k useful) (availableWorkers s),
               uploads := uploads s
                 @ map (\<lambda>i. (useful ! i, workItem cid enc (pieces cg ! i))) [0..<k]\<rparr>),
            Continue)"
    unfolding sendPieces_all_sent [OF sends] fstz ups assms(9) ..
  have len: "length ?zs = k" by (simp add: assms(7))
  show ?thesis
    using assms(1-5) sent len
    by (simp add: repairChunk_def assms(6) [symmetric] Let_def assms(10) numGaps_def min_def)
qed



subsection \<open>The batching threshold\<close>

lemma deferChunk_eq:
  "deferChunk cid cg s =
     s\<lparr>repairMatrix := (repairMatrix s)
          (cid \<mapsto> cg\<lparr>contracts := purgeRetired (retiredWorkers s) (contracts cg)\<rparr>)\<rparr>"
  by (simp add: deferChunk_def numGaps_def Let_def)

text \<open>
  With \<open>maxGaps\<close> at least 4 and fewer than four useful workers, nothing is sent: the
  state changes only in the chunk's record, from whose missing contracts the retired
  workers are cut out, and the scan goes on with the remaining chunks.
\<close>

lemma defer_below_threshold:
  assumes "repairMatrix s cid = Some cg" and "useful = usefulWorkers (availableWorkers s) cg"
    and "purged = purgeRetired (retiredWorkers s) (contracts cg)"
    and "4 \<le> mg" and "length useful < 4"
  shows "processChunk e mg cid cg s
           = (s\<lparr>repairMatrix := (repairMatrix s)(cid \<mapsto> cg\<lparr>contracts := purged\<rparr>)\<rparr>, Continue)"
    and "scanChunks e mg (cid # rest) s
           = scanChunks e mg rest
               (s\<lparr>repairMatrix := (repairMatrix s)(cid \<mapsto> cg\<lparr>contracts := purged\<rparr>)\<rparr>)"
    and "set purged \<subseteq> set (contracts cg)"
    and "set (contracts cg) - set (retiredWorkers s) \<subseteq> set purged"
proof -
  from assms show p: "processChunk e mg cid cg s
           = (s\<lparr>repairMatrix := (repairMatrix s)(cid \<mapsto> cg\<lparr>contracts := purged\<rparr>)\<rparr>, Continue)"
    by (simp add: processChunk_def deferChunk_eq)
  from assms(1) show "scanChunks e mg (cid # rest) s
           = scanChunks e mg rest
               (s\<lparr>repairMatrix := (repairMatrix s)(cid \<mapsto> cg\<lparr>contracts := purged\<rparr>)\<rparr>)"
    by (simp add: p)
  show "set purged \<subseteq> set (contracts cg)"
    unfolding assms(3) purgeRetired_def by (rule set_fold_remove1_subset)
  show "set (contracts cg) - set (retiredWorkers s) \<subseteq> set purged"
    unfolding assms(3) purgeRetired_def by (rule set_fold_remove1_keeps)
qed

text \<open>
  With \<open>maxGaps\<close> below 4, a chunk with a useful worker and a missing piece whose source
  is read and encoded is handed out, at least one work item, when the sends are taken.
\<close>

lemma dispatch_below_four:
  assumes "repairMatrix s cid = Some cg" and "useful = usefulWorkers (availableWorkers s) cg"
    and "mg < 4" and "useful \<noteq> []" and "pieces cg \<noteq> []"
    and "files e (filename cid) = Some f" and "tracking e (filename cid) = Some path"
    and "openFile e path" and "readAt e path (chunkIndex cid) = Some chunk"
    and "encode e f chunk = Some ps"
    and "enc = encryptPieces e f (chunkIndex cid) ps"
    and "k = min (length useful) (length (pieces cg))"
    and "\<forall>i<k. pieces cg ! i < length enc \<and> map_of (workerPool s) (useful ! i) \<noteq> None
               \<and> sendBeforeStop e (useful ! i) (workItem cid enc (pieces cg ! i))"
  shows "snd (scanChunks e mg (cid # rest) s) = Break"
    and "uploads (fst (scanChunks e mg (cid # rest) s))
           = uploads s @ map (\<lambda>i. (useful ! i, workItem cid enc (pieces cg ! i))) [0..<k]"
    and "0 < k"
proof -
  have pc: "processChunk e mg cid cg s = repairChunk e cid cg useful s"
    using assms(2,3) by (simp add: processChunk_def)
  note rc = repairChunk_sends [OF assms(6-10) assms(11) assms(12) assms(13) refl refl]
  from assms(1) show "snd (scanChunks e mg (cid # rest) s) = Break"
    by (simp add: pc rc)
  from assms(1) show "uploads (fst (scanChunks e mg (cid # rest) s))
           = uploads s @ map (\<lambda>i. (useful ! i, workItem cid enc (pieces cg ! i))) [0..<k]"
    by (simp add: pc rc)
  from assms(4,5) show "0 < k" by (simp add: assms(12))
qed

text \<open>
  C5. The claim is that a chunk passed over by the batching test is changed only by the
  purge of the retired workers and by the update of gap count and histogram that results
  from it. Evaluated on the second iteration of an epoch with two chunks: \<open>maxGaps\<close> is
  5, worker 1 is retired and workers 4, 3 and 2 are useful for chunk 1. Nothing is sent
  and the scan continues; worker 1 is cut out of the missing contracts, so that the gap
  count of the chunk falls from 5 to 4; the histogram stays as it was, with two chunks
  under 5 and none under 4. The comments of lines 221 and 234 announce the update; the
  test of line 236 asks for fewer contracts than \<^verbatim>\<open>numGaps()\<close>, which is at most their
  number, so lines 237 to 240 never run (\<open>deferChunk_eq\<close>).
\<close>

theorem deferred_chunk_histogram_evaluated:
  "epochStart exClock exPool5 [exFile2] [''g'' \<mapsto> ''/repair/g''] = Inr exEpoch
   \<and> repairLoop exEnv2 [exIter1] exEpoch = (exSecond, NextIteration)
   \<and> maxGapsOf (gapCounts exSecond) = 5
   \<and> retiredWorkers exSecond = [1]
   \<and> repairMatrix exSecond exChunk1
       = Some \<lparr>contracts = [1, 2, 3, 4, 5], pieces = [0, 1, 2, 3, 4], numGapsField = 0\<rparr>
   \<and> usefulWorkers (availableWorkers exSecond)
        \<lparr>contracts = [1, 2, 3, 4, 5], pieces = [0, 1, 2, 3, 4], numGapsField = 0\<rparr> = [4, 3, 2]
   \<and> numGaps \<lparr>contracts = [1, 2, 3, 4, 5], pieces = [0, 1, 2, 3, 4], numGapsField = 0\<rparr> = 5
   \<and> gapCounts exSecond = [(5, 2), (0, 0)]
   \<and> snd (processChunk exEnv2 5 exChunk1
            \<lparr>contracts = [1, 2, 3, 4, 5], pieces = [0, 1, 2, 3, 4], numGapsField = 0\<rparr> exSecond)
       = Continue
   \<and> uploads (fst (processChunk exEnv2 5 exChunk1
            \<lparr>contracts = [1, 2, 3, 4, 5], pieces = [0, 1, 2, 3, 4], numGapsField = 0\<rparr> exSecond))
       = uploads exSecond
   \<and> repairMatrix (fst (processChunk exEnv2 5 exChunk1
            \<lparr>contracts = [1, 2, 3, 4, 5], pieces = [0, 1, 2, 3, 4], numGapsField = 0\<rparr> exSecond))
         exChunk1
       = Some \<lparr>contracts = [2, 3, 4, 5], pieces = [0, 1, 2, 3, 4], numGapsField = 0\<rparr>
   \<and> numGaps \<lparr>contracts = [2, 3, 4, 5], pieces = [0, 1, 2, 3, 4], numGapsField = 0\<rparr> = 4
   \<and> gapCounts (fst (processChunk exEnv2 5 exChunk1
            \<lparr>contracts = [1, 2, 3, 4, 5], pieces = [0, 1, 2, 3, 4], numGapsField = 0\<rparr> exSecond))
       = [(5, 2), (0, 0)]
   \<and> lookupGap [(5, 2), (0, 0)] 5 = 2
   \<and> lookupGap [(5, 2), (0, 0)] 4 = 0"
proof -
  have a: "repairLoop exEnv2 [exIter1] exEpoch = (exSecond, NextIteration)"
    by (simp add: exSecond_def exEpoch_def exIter1_def exEnv2_def exPool5_def exChunk0_def
        exChunk1_def exFile2_def repairIteration_def iterationBody_def stopCheck_def
        maxGapsOf_def processChunk_def usefulWorkers_def repairChunk_def encryptPieces_def
        workItem_def incrGap_def decrGap_def lookupGap_def neededWorkers_def mapLen_def
        hour_def Let_def upt_rec eval_nat_numeral)
  have b: "maxGapsOf (gapCounts exSecond) = 5
   \<and> retiredWorkers exSecond = [1]
   \<and> repairMatrix exSecond exChunk1
       = Some \<lparr>contracts = [1, 2, 3, 4, 5], pieces = [0, 1, 2, 3, 4], numGapsField = 0\<rparr>
   \<and> usefulWorkers (availableWorkers exSecond)
        \<lparr>contracts = [1, 2, 3, 4, 5], pieces = [0, 1, 2, 3, 4], numGapsField = 0\<rparr> = [4, 3, 2]
   \<and> numGaps \<lparr>contracts = [1, 2, 3, 4, 5], pieces = [0, 1, 2, 3, 4], numGapsField = 0\<rparr> = 5
   \<and> gapCounts exSecond = [(5, 2), (0, 0)]"
    by code_simp
  have c: "snd (processChunk exEnv2 5 exChunk1
            \<lparr>contracts = [1, 2, 3, 4, 5], pieces = [0, 1, 2, 3, 4], numGapsField = 0\<rparr> exSecond)
       = Continue
   \<and> uploads (fst (processChunk exEnv2 5 exChunk1
            \<lparr>contracts = [1, 2, 3, 4, 5], pieces = [0, 1, 2, 3, 4], numGapsField = 0\<rparr> exSecond))
       = uploads exSecond
   \<and> repairMatrix (fst (processChunk exEnv2 5 exChunk1
            \<lparr>contracts = [1, 2, 3, 4, 5], pieces = [0, 1, 2, 3, 4], numGapsField = 0\<rparr> exSecond))
         exChunk1
       = Some \<lparr>contracts = [2, 3, 4, 5], pieces = [0, 1, 2, 3, 4], numGapsField = 0\<rparr>
   \<and> numGaps \<lparr>contracts = [2, 3, 4, 5], pieces = [0, 1, 2, 3, 4], numGapsField = 0\<rparr> = 4
   \<and> gapCounts (fst (processChunk exEnv2 5 exChunk1
            \<lparr>contracts = [1, 2, 3, 4, 5], pieces = [0, 1, 2, 3, 4], numGapsField = 0\<rparr> exSecond))
       = [(5, 2), (0, 0)]
   \<and> lookupGap [(5, 2), (0, 0)] 5 = 2
   \<and> lookupGap [(5, 2), (0, 0)] 4 = 0"
    by code_simp
  from exEpoch_start a b c show ?thesis by blast
qed

subsection \<open>The worker sets along an epoch\<close>

lemma send_step_inv:
  assumes "w \<in> set (availableWorkers s)" and "setsOk elig s" and "answersOk s received"
  shows "setsOk elig (s\<lparr>availableWorkers := removeAll w (availableWorkers s),
                          uploads := uploads s @ [(w, uw)]\<rparr>)
       \<and> answersOk (s\<lparr>availableWorkers := removeAll w (availableWorkers s),
                        uploads := uploads s @ [(w, uw)]\<rparr>) received"
proof -
  from assms(1,2) have act: "w \<in> set (activeWorkers s)" by (auto simp: setsOk_def)
  from assms(3) have due: "count_list (map fst (uploads s)) v
            \<le> count_list received v
               + (if v \<in> set (activeWorkers s) \<and> v \<notin> set (availableWorkers s) then 1 else 0)"
    for v by (simp add: answersOk_def)
  from due [of w] assms(1) have "count_list (map fst (uploads s)) w \<le> count_list received w"
    by simp
  then have "count_list (map fst (uploads s @ [(w, uw)])) v
            \<le> count_list received v
               + (if v \<in> set (activeWorkers s) \<and> v \<notin> set (removeAll w (availableWorkers s))
                  then 1 else 0)" for v
    using due [of v] act by (cases "v = w") auto
  then have "answersOk (s\<lparr>availableWorkers := removeAll w (availableWorkers s),
                        uploads := uploads s @ [(w, uw)]\<rparr>) received"
    by (simp add: answersOk_def)
  moreover have "setsOk elig (s\<lparr>availableWorkers := removeAll w (availableWorkers s),
                          uploads := uploads s @ [(w, uw)]\<rparr>)"
    using assms(2) by (auto simp: setsOk_def)
  ultimately show ?thesis by simp
qed

lemma sendPieces_inv:
  assumes "sendPieces e cid ps zs (cg, s) = ((cg1, s1), c)"
    and "distinct (map fst zs)" and "set (map fst zs) \<subseteq> set (availableWorkers s)"
    and "setsOk elig s" and "answersOk s received" and "distinct (contracts cg)"
  shows "setsOk elig s1 \<and> answersOk s1 received \<and> distinct (contracts cg1)
       \<and> repairMatrix s1 = repairMatrix s"
  using assms
proof (induction zs arbitrary: cg s)
  case Nil
  then show ?case by simp
next
  case (Cons z zs)
  obtain w p where z: "z = (w, p)" by (cases z)
  let ?cg = "cg\<lparr>contracts := remove1 w (contracts cg)\<rparr>"
  let ?s = "s\<lparr>availableWorkers := removeAll w (availableWorkers s),
              uploads := uploads s @ [(w, workItem cid ps p)]\<rparr>"
  show ?case
  proof (cases "p < length ps \<and> map_of (workerPool s) w \<noteq> None
                \<and> sendBeforeStop e w (workItem cid ps p)")
    case False
    with Cons.prems(1) have "cg1 = cg \<and> s1 = s"
      by (auto simp: z split: option.splits if_splits)
    with Cons.prems show ?thesis by simp
  next
    case True
    with Cons.prems(1) have run: "sendPieces e cid ps zs (?cg, ?s) = ((cg1, s1), c)"
      by (auto simp: z)
    from Cons.prems(2,3) have w: "w \<in> set (availableWorkers s)" and d: "distinct (map fst zs)"
      and nw: "w \<notin> set (map fst zs)" and sub: "set (map fst zs) \<subseteq> set (availableWorkers s)"
      by (simp_all add: z)
    from nw sub have sub1: "set (map fst zs) \<subseteq> set (availableWorkers ?s)" by auto
    from send_step_inv [OF w Cons.prems(4,5)]
    have so: "setsOk elig ?s" and ao: "answersOk ?s received" by simp_all
    from Cons.prems(6) have dc: "distinct (contracts ?cg)" by simp
    from Cons.IH [OF run d sub1 so ao dc] show ?thesis by simp
  qed
qed

lemma matrixOk_upd: "matrixOk rm \<Longrightarrow> distinct (contracts cg) \<Longrightarrow> matrixOk (rm(cid \<mapsto> cg))"
  by (simp add: matrixOk_def)

lemma matrixOk_entry: "matrixOk rm \<Longrightarrow> rm cid = Some cg \<Longrightarrow> distinct (contracts cg)"
  by (simp add: matrixOk_def)

lemma setsOk_matrix [simp]:
  "setsOk elig (s\<lparr>repairMatrix := rm\<rparr>) = setsOk elig s"
  "setsOk elig (s\<lparr>gapCounts := gc\<rparr>) = setsOk elig s"
  by (simp_all add: setsOk_def)

lemma answersOk_matrix [simp]:
  "answersOk (s\<lparr>repairMatrix := rm\<rparr>) received = answersOk s received"
  "answersOk (s\<lparr>gapCounts := gc\<rparr>) received = answersOk s received"
  by (simp_all add: answersOk_def)

lemma repairChunk_inv:
  assumes "repairChunk e cid cg (usefulWorkers (availableWorkers s) cg) s = (s1, c)"
    and "setsOk elig s" and "answersOk s received" and "matrixOk (repairMatrix s)"
    and "distinct (contracts cg)"
  shows "setsOk elig s1 \<and> answersOk s1 received \<and> matrixOk (repairMatrix s1)"
proof -
  let ?useful = "usefulWorkers (availableWorkers s) cg"
  let ?zs = "zip ?useful (pieces cg)"
  have d: "distinct (map fst ?zs)"
    using assms(5) by (simp add: map_fst_zip_take usefulWorkers_distinct)
  have sub: "set (map fst ?zs) \<subseteq> set (availableWorkers s)"
  proof -
    have "set (map fst ?zs) \<subseteq> set ?useful"
      unfolding map_fst_zip_take by (rule set_take_subset)
    then show ?thesis by (auto simp: usefulWorkers_set)
  qed
  have sent: "setsOk elig s2 \<and> answersOk s2 received \<and> distinct (contracts cg2)
                \<and> repairMatrix s2 = repairMatrix s"
    if "sendPieces e cid ps ?zs (cg, s) = ((cg2, s2), c2)" for ps cg2 s2 c2
    using sendPieces_inv [OF that d sub assms(2,3,5)] .
  show ?thesis
  proof (cases "\<exists>f path chunk ps. files e (filename cid) = Some f
                  \<and> tracking e (filename cid) = Some path \<and> openFile e path
                  \<and> readAt e path (chunkIndex cid) = Some chunk \<and> encode e f chunk = Some ps")
    case False
    with assms(1) have "s1 = s"
      by (auto simp: repairChunk_def split: option.splits if_splits)
    with assms show ?thesis by simp
  next
    case True
    then obtain f path chunk ps where io: "files e (filename cid) = Some f"
      "tracking e (filename cid) = Some path" "openFile e path"
      "readAt e path (chunkIndex cid) = Some chunk" "encode e f chunk = Some ps" by auto
    obtain cg2 s2 c2 where sp: "sendPieces e cid (encryptPieces e f (chunkIndex cid) ps) ?zs (cg, s)
                                  = ((cg2, s2), c2)"
      by (metis surj_pair)
    from sent [OF sp] have so: "setsOk elig s2" and ao: "answersOk s2 received"
      and dc: "distinct (contracts cg2)" and rm: "repairMatrix s2 = repairMatrix s" by simp_all
    from assms(4) rm have m2: "matrixOk (repairMatrix s2)" by simp
    show ?thesis
    proof (cases "c2 = Continue")
      case True
      with assms(1) io sp obtain cg3 gc where "s1 = s2\<lparr>repairMatrix := (repairMatrix s2)(cid \<mapsto> cg3),
                                                       gapCounts := gc\<rparr>"
        and "contracts cg3 = contracts cg2"
        by (auto simp: repairChunk_def Let_def)
      with so ao dc m2 show ?thesis by (simp add: matrixOk_upd)
    next
      case False
      with assms(1) io sp have "s1 = s2\<lparr>repairMatrix := (repairMatrix s2)(cid \<mapsto> cg2)\<rparr>"
        by (cases c2) (auto simp: repairChunk_def Let_def)
      with so ao dc m2 show ?thesis by (simp add: matrixOk_upd)
    qed
  qed
qed

lemma processChunk_inv:
  assumes "processChunk e mg cid cg s = (s1, c)"
    and "setsOk elig s" and "answersOk s received" and "matrixOk (repairMatrix s)"
    and "repairMatrix s cid = Some cg"
  shows "setsOk elig s1 \<and> answersOk s1 received \<and> matrixOk (repairMatrix s1)"
proof -
  from assms(4,5) have dc: "distinct (contracts cg)" by (rule matrixOk_entry)
  show ?thesis
  proof (cases "4 \<le> mg \<and> length (usefulWorkers (availableWorkers s) cg) < 4")
    case True
    with assms(1) have "s1 = deferChunk cid cg s" by (simp add: processChunk_def)
    then have "s1 = s\<lparr>repairMatrix := (repairMatrix s)
          (cid \<mapsto> cg\<lparr>contracts := purgeRetired (retiredWorkers s) (contracts cg)\<rparr>)\<rparr>"
      by (simp only: deferChunk_eq)
    moreover have "distinct (purgeRetired (retiredWorkers s) (contracts cg))"
      unfolding purgeRetired_def using dc by (rule distinct_fold_remove1)
    ultimately show ?thesis using assms(2,3,4) by (simp add: matrixOk_upd)
  next
    case False
    with assms(1) have "repairChunk e cid cg (usefulWorkers (availableWorkers s) cg) s = (s1, c)"
      by (auto simp: processChunk_def Let_def)
    from repairChunk_inv [OF this assms(2,3,4) dc] show ?thesis .
  qed
qed

lemma scanChunks_inv:
  assumes "scanChunks e mg order s = (s1, c)"
    and "setsOk elig s" and "answersOk s received" and "matrixOk (repairMatrix s)"
  shows "setsOk elig s1 \<and> answersOk s1 received \<and> matrixOk (repairMatrix s1)"
  using assms
proof (induction order arbitrary: s)
  case Nil
  then show ?case by simp
next
  case (Cons cid order)
  show ?case
  proof (cases "repairMatrix s cid")
    case None
    with Cons.prems(1) have "scanChunks e mg order s = (s1, c)" by simp
    from Cons.IH [OF this Cons.prems(2,3,4)] show ?thesis .
  next
    case (Some cg)
    obtain s2 c2 where pc: "processChunk e mg cid cg s = (s2, c2)" by (cases "processChunk e mg cid cg s")
    from processChunk_inv [OF pc Cons.prems(2,3,4) Some]
    have inv2: "setsOk elig s2" "answersOk s2 received" "matrixOk (repairMatrix s2)" by simp_all
    show ?thesis
    proof (cases "c2 = Continue")
      case True
      with Cons.prems(1) Some pc have "scanChunks e mg order s2 = (s1, c)" by simp
      from Cons.IH [OF this inv2] show ?thesis .
    next
      case False
      with Cons.prems(1) Some pc have "s1 = s2" by (cases c2) simp_all
      with inv2 show ?thesis by simp
    qed
  qed
qed

lemma handleResult_inv:
  assumes "awaited s received (workerID fu)"
    and "setsOk elig s" and "answersOk s received"
  shows "setsOk elig (fst (handleResult fu now (s, n)))
       \<and> answersOk (fst (handleResult fu now (s, n))) (workerID fu # received)
       \<and> repairMatrix (fst (handleResult fu now (s, n))) = repairMatrix s"
proof -
  let ?w = "workerID fu"
  from assms(3) have due: "count_list (map fst (uploads s)) v
            \<le> count_list received v
               + (if v \<in> set (activeWorkers s) \<and> v \<notin> set (availableWorkers s) then 1 else 0)"
    for v by (simp add: answersOk_def)
  from assms(1) due [of ?w] have busy: "?w \<in> set (activeWorkers s) \<and> ?w \<notin> set (availableWorkers s)"
    by (auto simp: awaited_def split: if_splits)
  show ?thesis
  proof (cases "err fu")
    case False
    then have s1: "fst (handleResult fu now (s, n))
                     = s\<lparr>availableWorkers := List.insert ?w (availableWorkers s)\<rparr>" by simp
    have "count_list (map fst (uploads s)) v
            \<le> count_list (?w # received) v
               + (if v \<in> set (activeWorkers s) \<and> v \<notin> set (List.insert ?w (availableWorkers s))
                  then 1 else 0)" for v
      using due [of v] busy by (cases "v = ?w") auto
    then have "answersOk (s\<lparr>availableWorkers := List.insert ?w (availableWorkers s)\<rparr>)
                 (?w # received)"
      by (simp add: answersOk_def)
    moreover have "setsOk elig (s\<lparr>availableWorkers := List.insert ?w (availableWorkers s)\<rparr>)"
      using assms(2) busy by (auto simp: setsOk_def)
    ultimately show ?thesis unfolding s1 by simp
  next
    case True
    show ?thesis
    proof (cases "map_of (workerPool s) ?w")
      case None
      with True have s1: "fst (handleResult fu now (s, n)) = s" by simp
      have "count_list (map fst (uploads s)) v
            \<le> count_list (?w # received) v
               + (if v \<in> set (activeWorkers s) \<and> v \<notin> set (availableWorkers s) then 1 else 0)"
        for v using due [of v] by auto
      then have "answersOk s (?w # received)" by (simp add: answersOk_def)
      with assms(2) show ?thesis unfolding s1 by simp
    next
      case (Some x)
      let ?s = "s\<lparr>workerPool := AList.update ?w (x\<lparr>recentUploadFailure := now\<rparr>) (workerPool s),
                  retiredWorkers := retiredWorkers s @ [?w],
                  activeWorkers := removeAll ?w (activeWorkers s)\<rparr>"
      from True Some have s1: "fst (handleResult fu now (s, n)) = ?s" by simp
      have "count_list (map fst (uploads s)) v
            \<le> count_list (?w # received) v
               + (if v \<in> set (removeAll ?w (activeWorkers s)) \<and> v \<notin> set (availableWorkers s)
                  then 1 else 0)" for v
        using due [of v] busy by (cases "v = ?w") auto
      then have "answersOk ?s (?w # received)" by (simp add: answersOk_def)
      moreover have "setsOk elig ?s" using assms(2) busy by (auto simp: setsOk_def)
      ultimately show ?thesis unfolding s1 by simp
    qed
  qed
qed

lemma chunkEntry_distinct: "chunkEntry f ws i = Inr (Some g) \<Longrightarrow> distinct (contracts g)"
  by (auto simp: chunkEntry_def contractGaps_def split: if_splits sum.splits)

lemma addChunks_matrixOk:
  "addChunks f ws is (rm, gc) = Inr (rm1, gc1) \<Longrightarrow> matrixOk rm \<Longrightarrow> matrixOk rm1"
proof (induction "is" arbitrary: rm gc)
  case Nil
  then show ?case by simp
next
  case (Cons i "is")
  show ?case
  proof (cases "chunkEntry f ws i")
    case (Inl x)
    with Cons.prems show ?thesis by simp
  next
    case (Inr entry)
    show ?thesis
    proof (cases entry)
      case None
      with Inr Cons.prems have "addChunks f ws is (rm, gc) = Inr (rm1, gc1)" by simp
      from Cons.IH [OF this Cons.prems(2)] show ?thesis .
    next
      case (Some g)
      with Inr Cons.prems(1)
      have run: "addChunks f ws is (rm(\<lparr>chunkIndex = i, filename = name f\<rparr> \<mapsto> g),
                   incrGap (numGaps g) gc) = Inr (rm1, gc1)" by simp
      from Inr Some have "distinct (contracts g)" by (intro chunkEntry_distinct) simp
      with Cons.prems(2) have "matrixOk (rm(\<lparr>chunkIndex = i, filename = name f\<rparr> \<mapsto> g))"
        by (rule matrixOk_upd)
      from Cons.IH [OF run this] show ?thesis .
    qed
  qed
qed

lemma addFiles_matrixOk:
  "addFiles fs tracked ws st = Inr st1 \<Longrightarrow> matrixOk (fst st) \<Longrightarrow> matrixOk (fst st1)"
proof (induction fs arbitrary: st)
  case Nil
  then show ?case by simp
next
  case (Cons f fs)
  show ?case
  proof (cases "tracked (name f)")
    case None
    with Cons.prems have "addFiles fs tracked ws st = Inr st1" by simp
    from Cons.IH [OF this Cons.prems(2)] show ?thesis .
  next
    case (Some path)
    with Cons.prems(1) obtain st2 where a: "addFileToRepairMatrix f ws st = Inr st2"
      and b: "addFiles fs tracked ws st2 = Inr st1"
      by (auto split: sum.splits)
    from a have "addChunks f ws [0..<numChunks f] (fst st, snd st) = Inr (fst st2, snd st2)"
      by (simp add: addFileToRepairMatrix_def)
    from addChunks_matrixOk [OF this Cons.prems(2)] have "matrixOk (fst st2)" .
    from Cons.IH [OF b this] show ?thesis .
  qed
qed

lemma epochStart_inv:
  assumes "epochStart clock pool fs tracked = Inr s0"
  shows "epochInv (initialWorkers clock pool) (s0, [])"
proof -
  from assms obtain rm gc where c: "createRepairMatrix fs tracked (initialWorkers clock pool) = Inr (rm, gc)"
    and s0: "s0 = \<lparr>repairMatrix = rm, gapCounts = gc,
                  availableWorkers = initialWorkers clock pool,
                  activeWorkers = initialWorkers clock pool,
                  retiredWorkers = [], workerPool = pool, uploads = []\<rparr>"
    by (auto simp: epochStart_def Let_def split: sum.splits)
  have "matrixOk (fst (Map.empty :: matrix, [] :: histogram))" by (simp add: matrixOk_def)
  with c have "matrixOk (fst (rm, gc))"
    unfolding createRepairMatrix_def by (rule addFiles_matrixOk)
  then show ?thesis
    by (simp add: epochInv_def s0 setsOk_def answersOk_def)
qed

lemma execStep_inv:
  assumes "execStep x st = Some st1" and "epochInv elig st"
  shows "epochInv elig st1"
proof -
  obtain s received where st: "st = (s, received)" by (cases st)
  from assms(2) have so: "setsOk elig s" and ao: "answersOk s received"
    and mo: "matrixOk (repairMatrix s)" by (simp_all add: epochInv_def st)
  show ?thesis
  proof (cases x)
    case (Scan e order)
    show ?thesis
    proof (cases "maxGapsOf (gapCounts s) = 0")
      case True
      with assms Scan show ?thesis by (simp add: st)
    next
      case False
      obtain s1 c where sc: "scanChunks e (maxGapsOf (gapCounts s)) order s = (s1, c)"
        by (cases "scanChunks e (maxGapsOf (gapCounts s)) order s")
      with assms(1) Scan False have "st1 = (s1, received)" by (simp add: st)
      with scanChunks_inv [OF sc so ao mo] show ?thesis by (simp add: epochInv_def)
    qed
  next
    case (Receive fu now)
    with assms(1) have aw: "awaited s received (workerID fu)"
      and st1: "st1 = (fst (handleResult fu now (s, 0)), workerID fu # received)"
      by (simp_all add: st split: if_splits)
    from handleResult_inv [OF aw so ao, of now 0] mo show ?thesis
      by (simp add: epochInv_def st1)
  next
    case (NewFile f)
    with assms(1) obtain rm gc where a: "addFileToRepairMatrix f (activeWorkers s) (repairMatrix s, gapCounts s)
                                          = Inr (rm, gc)"
      and st1: "st1 = (s\<lparr>repairMatrix := rm, gapCounts := gc\<rparr>, received)"
      by (auto simp: st split: sum.splits)
    from a have "addChunks f (activeWorkers s) [0..<numChunks f] (repairMatrix s, gapCounts s)
                   = Inr (rm, gc)"
      by (simp add: addFileToRepairMatrix_def)
    from addChunks_matrixOk [OF this mo] so ao show ?thesis
      by (simp add: epochInv_def st1)
  qed
qed

lemma execSteps_inv:
  "execSteps xs st = Some st1 \<Longrightarrow> epochInv elig st \<Longrightarrow> epochInv elig st1"
proof (induction xs arbitrary: st)
  case Nil
  then show ?case by simp
next
  case (Cons x xs)
  from Cons.prems(1) obtain st2 where a: "execStep x st = Some st2"
    and b: "execSteps xs st2 = Some st1"
    by (auto split: option.splits)
  from execStep_inv [OF a Cons.prems(2)] have "epochInv elig st2" .
  from Cons.IH [OF b this] show ?case .
qed

text \<open>
  The scheduler changes the pool only in the failure timestamp of a worker it holds. So
  in every state of an epoch the useful workers of a chunk are workers of the pool, and
  its missing contracts are listed without repetition.
\<close>

lemma sendPieces_pool:
  "sendPieces e cid ps zs (cg, s) = ((cg1, s1), c) \<Longrightarrow> workerPool s1 = workerPool s"
proof (induction zs arbitrary: cg s)
  case Nil
  then show ?case by simp
next
  case (Cons z zs)
  obtain w p where z: "z = (w, p)" by (cases z)
  show ?case
  proof (cases "p < length ps \<and> map_of (workerPool s) w \<noteq> None
                \<and> sendBeforeStop e w (workItem cid ps p)")
    case True
    with Cons.prems have "sendPieces e cid ps zs
            (cg\<lparr>contracts := remove1 w (contracts cg)\<rparr>,
             s\<lparr>availableWorkers := removeAll w (availableWorkers s),
               uploads := uploads s @ [(w, workItem cid ps p)]\<rparr>) = ((cg1, s1), c)"
      by (auto simp: z)
    from Cons.IH [OF this] show ?thesis by simp
  next
    case False
    with Cons.prems show ?thesis by (auto simp: z split: option.splits if_splits)
  qed
qed

lemma repairChunk_pool: "workerPool (fst (repairChunk e cid cg useful s)) = workerPool s"
  by (auto simp: repairChunk_def Let_def dest: sendPieces_pool
      split: option.splits prod.splits ctl.splits)

lemma processChunk_pool: "workerPool (fst (processChunk e mg cid cg s)) = workerPool s"
  by (simp add: processChunk_def Let_def deferChunk_eq repairChunk_pool)

lemma scanChunks_pool: "workerPool (fst (scanChunks e mg order s)) = workerPool s"
proof (induction order arbitrary: s)
  case Nil
  show ?case by simp
next
  case (Cons cid order)
  show ?case
  proof (cases "repairMatrix s cid")
    case None
    with Cons.IH show ?thesis by simp
  next
    case (Some cg)
    obtain s1 c where p: "processChunk e mg cid cg s = (s1, c)"
      by (cases "processChunk e mg cid cg s")
    with processChunk_pool [of e mg cid cg s] have s1: "workerPool s1 = workerPool s" by simp
    show ?thesis
    proof (cases c)
      case Continue
      with Some p have "scanChunks e mg (cid # order) s = scanChunks e mg order s1" by simp
      with Cons.IH [of s1] s1 show ?thesis by simp
    qed (use Some p s1 in simp_all)
  qed
qed

lemma handleResult_pool:
  "fst ` set (workerPool (fst (handleResult fu now (s, n)))) = fst ` set (workerPool s)"
proof -
  have "map_of al k = Some x \<Longrightarrow> k \<in> fst ` set al" for al :: "(fcid \<times> worker) list" and k x
    by (metis map_of_eq_None_iff option.distinct(1))
  then show ?thesis
    by (auto simp: AList.dom_update split: option.splits)
qed

lemma execStep_pool:
  assumes "execStep x (s, received) = Some (s1, received1)"
  shows "fst ` set (workerPool s1) = fst ` set (workerPool s)"
proof (cases x)
  case (Scan e order)
  with assms show ?thesis by (auto simp: scanChunks_pool split: if_splits)
next
  case (Receive fu now)
  with assms have "s1 = fst (handleResult fu now (s, 0))" by (auto split: if_splits)
  then show ?thesis by (simp only: handleResult_pool)
next
  case (NewFile f)
  with assms show ?thesis by (auto split: sum.splits)
qed

lemma execSteps_pool:
  "execSteps xs (s, received) = Some (s1, received1)
   \<Longrightarrow> fst ` set (workerPool s1) = fst ` set (workerPool s)"
proof (induction xs arbitrary: s received)
  case Nil
  then show ?case by simp
next
  case (Cons x xs)
  from Cons.prems obtain s2 received2 where a: "execStep x (s, received) = Some (s2, received2)"
    and b: "execSteps xs (s2, received2) = Some (s1, received1)"
    by (auto split: option.splits)
  from Cons.IH [OF b] execStep_pool [OF a] show ?case by simp
qed

lemma epoch_dispatch_conditions:
  assumes "epochStart clock pool fs tracked = Inr s0"
    and "execSteps xs (s0, []) = Some (s, received)"
    and "repairMatrix s cid = Some cg"
  shows "distinct (contracts cg)"
    and "\<forall>w \<in> set (usefulWorkers (availableWorkers s) cg). map_of (workerPool s) w \<noteq> None"
proof -
  from execSteps_inv [OF assms(2) epochStart_inv [OF assms(1)]]
  have inv: "epochInv (initialWorkers clock pool) (s, received)" .
  then have "matrixOk (repairMatrix s)" by (simp add: epochInv_def)
  then show "distinct (contracts cg)" using assms(3) by (rule matrixOk_entry)
  from inv have sets: "set (availableWorkers s) \<subseteq> set (initialWorkers clock pool)"
    by (auto simp: epochInv_def setsOk_def)
  from assms(1) have "workerPool s0 = pool"
    by (auto simp: epochStart_def Let_def split: sum.splits)
  with execSteps_pool [OF assms(2)] have keys: "fst ` set (workerPool s) = fst ` set pool"
    by simp
  show "\<forall>w \<in> set (usefulWorkers (availableWorkers s) cg). map_of (workerPool s) w \<noteq> None"
  proof
    fix w assume "w \<in> set (usefulWorkers (availableWorkers s) cg)"
    then have "w \<in> set (availableWorkers s)" by (simp add: usefulWorkers_set)
    with sets have "w \<in> set (initialWorkers clock pool)" by auto
    then have "w \<in> fst ` set pool" by (auto simp: initialWorkers_def)
    with keys have "w \<in> fst ` set (workerPool s)" by simp
    then show "map_of (workerPool s) w \<noteq> None" by (simp add: map_of_eq_None_iff)
  qed
qed

text \<open>
  The loop of \<^verbatim>\<open>managedRepairIteration\<close> runs through such steps: when the steps it takes
  on its inputs can be taken, they end in the state in which the loop ends.
\<close>

lemma execSteps_append:
  "execSteps (xs @ ys) st = (case execSteps xs st of None \<Rightarrow> None | Some st1 \<Rightarrow> execSteps ys st1)"
  by (induction xs arbitrary: st) (simp_all split: option.splits)

lemma handleResult_state: "fst (handleResult fu now (s, n)) = fst (handleResult fu now (s, m))"
  by (simp split: option.splits)

lemma waitSteps_run:
  "execSteps (waitSteps evs (s, need)) (s, received) = Some (s1, received1)
   \<Longrightarrow> fst (fst (waitForWorkers evs (s, need))) = s1"
proof (induction evs arbitrary: s need received)
  case Nil
  then show ?case by simp
next
  case (Cons ev evs)
  show ?case
  proof (cases "int (mapLen (availableWorkers s)) < need")
    case False
    with Cons.prems show ?thesis by simp
  next
    case True
    show ?thesis
    proof (cases ev)
      case StopSignal
      with True Cons.prems show ?thesis by simp
    next
      case (Result fu now)
      obtain s2 n2 where h: "handleResult fu now (s, need) = (s2, n2)"
        by (cases "handleResult fu now (s, need)")
      have "fst (handleResult fu now (s, 0)) = fst (handleResult fu now (s, need))"
        by (rule handleResult_state)
      with h have h0: "fst (handleResult fu now (s, 0)) = s2" by simp
      from Cons.prems True Result h h0
      have "execSteps (waitSteps evs (s2, n2)) (s2, workerID fu # received) = Some (s1, received1)"
        by (simp split: if_splits)
      from Cons.IH [OF this] have "fst (fst (waitForWorkers evs (s2, n2))) = s1" .
      with True Result h show ?thesis by simp
    qed
  qed
qed

lemma newFiles_run:
  "execSteps (map NewFile fs) (s, received) = Some (s1, received1) \<Longrightarrow> foldNewFiles fs s = Inr s1"
proof (induction fs arbitrary: s)
  case Nil
  then show ?case by simp
next
  case (Cons f fs)
  from Cons.prems obtain rm gc where a: "addFileToRepairMatrix f (activeWorkers s) (repairMatrix s, gapCounts s)
                                          = Inr (rm, gc)"
    and b: "execSteps (map NewFile fs) (s\<lparr>repairMatrix := rm, gapCounts := gc\<rparr>, received)
              = Some (s1, received1)"
    by (auto split: sum.splits option.splits)
  from Cons.IH [OF b] a show ?case by simp
qed

lemma iterationSteps_run:
  assumes "execSteps (iterationSteps e inp s) (s, received) = Some (s1, received1)"
  shows "fst (repairIteration e inp s) = s1"
proof -
  have body: "repairIteration e inp s = iterationBody e inp s"
    by (simp add: repairIteration_def split: selectExit.splits)
  let ?mg = "maxGapsOf (gapCounts s)"
  show ?thesis
  proof (cases "?mg = 0")
    case True
    then have "fst (repairIteration e inp s) = s"
      by (simp add: body iterationBody_def)
    moreover from True assms have "s1 = s" by (simp add: iterationSteps_def)
    ultimately show ?thesis by simp
  next
    case False
    obtain s2 c where sc: "scanChunks e ?mg (rangeOrder inp) s = (s2, c)"
      by (cases "scanChunks e ?mg (rangeOrder inp) s")
    obtain need newMatrix where nw: "neededWorkers (int ?mg) (int (mapLen (activeWorkers s2)))
                        (int (mapLen (availableWorkers s2))) (elapsed inp) = (need, newMatrix)"
      by (cases "neededWorkers (int ?mg) (int (mapLen (activeWorkers s2)))
                        (int (mapLen (availableWorkers s2))) (elapsed inp)")
    show ?thesis
    proof (cases "c = Continue \<or> c = Break")
      case False
      then have "(\<exists>x. c = Panic x) \<or> c = Return" by (cases c) simp_all
      with assms \<open>?mg \<noteq> 0\<close> sc show ?thesis
        by (auto simp: body iterationBody_def iterationSteps_def)
    next
      case True
      obtain s3 n3 w where wt: "waitForWorkers (events inp) (s2, need) = ((s3, n3), w)"
        by (metis surj_pair)
      let ?tail = "if w = Enough \<and> \<not> newMatrix then map NewFile (newFiles inp) else []"
      from True sc nw wt \<open>?mg \<noteq> 0\<close>
      have steps: "iterationSteps e inp s
                   = Scan e (rangeOrder inp) # waitSteps (events inp) (s2, need) @ ?tail"
        by (auto simp: iterationSteps_def)
      from True sc nw wt \<open>?mg \<noteq> 0\<close>
      have it: "iterationBody e inp s = afterWait inp newMatrix ((s3, n3), w)"
        by (auto simp: iterationBody_def)
      from assms sc \<open>?mg \<noteq> 0\<close>
      have "execSteps (waitSteps (events inp) (s2, need) @ ?tail) (s2, received) = Some (s1, received1)"
        unfolding steps by simp
      then obtain s4 r4 where w4: "execSteps (waitSteps (events inp) (s2, need)) (s2, received) = Some (s4, r4)"
        and t4: "execSteps ?tail (s4, r4) = Some (s1, received1)"
        unfolding execSteps_append by (auto split: option.splits)
      from waitSteps_run [OF w4] wt have s4: "s4 = s3" by simp
      show ?thesis
      proof (cases "w = Enough \<and> \<not> newMatrix")
        case False
        with t4 s4 have "s1 = s3" by simp
        with False show ?thesis unfolding body it by (cases w) auto
      next
        case True
        with t4 s4 have "execSteps (map NewFile (newFiles inp)) (s3, r4) = Some (s1, received1)"
          by simp
        from newFiles_run [OF this] True show ?thesis unfolding body it by simp
      qed
    qed
  qed
qed

lemma loopSteps_run:
  "execSteps (loopSteps e inps s) (s, received) = Some (s1, received1)
   \<Longrightarrow> fst (repairLoop e inps s) = s1"
proof (induction inps arbitrary: s received)
  case Nil
  then show ?case by simp
next
  case (Cons inp inps)
  obtain s2 out where it: "repairIteration e inp s = (s2, out)"
    by (cases "repairIteration e inp s")
  let ?tail = "case (s2, out) of (s1, NextIteration) \<Rightarrow> loopSteps e inps s1 | (s1, out) \<Rightarrow> []"
  from Cons.prems it
  have "execSteps (iterationSteps e inp s @ ?tail) (s, received) = Some (s1, received1)" by simp
  then obtain s3 r3 where a: "execSteps (iterationSteps e inp s) (s, received) = Some (s3, r3)"
    and b: "execSteps ?tail (s3, r3) = Some (s1, received1)"
    unfolding execSteps_append by (auto split: option.splits)
  from iterationSteps_run [OF a] it have s3: "s3 = s2" by simp
  show ?case
  proof (cases "out = NextIteration")
    case True
    with b s3 have "execSteps (loopSteps e inps s2) (s2, r3) = Some (s1, received1)" by simp
    from Cons.IH [OF this] it True show ?thesis by simp
  next
    case False
    with b s3 have "s1 = s2" by (cases out) simp_all
    with it False show ?thesis by (cases out) simp_all
  qed
qed

text \<open>
  C9. From the start of an epoch on, after every scan, every handled result and every
  folded file, the available workers are among the active workers and the active workers
  among the workers that were eligible at the start of the epoch; results are received
  only from workers that were handed a work item and have not answered it yet.
\<close>

theorem worker_sets_nested:
  assumes "epochStart clock pool fs tracked = Inr s0"
    and "execSteps xs (s0, []) = Some (s, received)"
  shows "set (availableWorkers s) \<subseteq> set (activeWorkers s)
       \<and> set (activeWorkers s) \<subseteq> set (initialWorkers clock pool)"
proof -
  from assms(1) have "epochInv (initialWorkers clock pool) (s0, [])" by (rule epochStart_inv)
  with assms(2) have "epochInv (initialWorkers clock pool) (s, received)" by (rule execSteps_inv)
  then show ?thesis by (simp add: epochInv_def setsOk_def)
qed

theorem worker_sets_nested_witness:
  "epochStart exClock exWorkers [exFile] [''f'' \<mapsto> ''/repair/f''] = Inr exStart
   \<and> initialWorkers exClock exWorkers = [7, 8]
   \<and> execSteps exSteps (exStart, []) \<noteq> None
   \<and> availableWorkers (fst (the (execSteps exSteps (exStart, [])))) = [7]
   \<and> activeWorkers (fst (the (execSteps exSteps (exStart, [])))) = [7]
   \<and> set (availableWorkers (fst (the (execSteps exSteps (exStart, [])))))
       \<subseteq> set (activeWorkers (fst (the (execSteps exSteps (exStart, [])))))
   \<and> set (activeWorkers (fst (the (execSteps exSteps (exStart, [])))))
       \<subseteq> set (initialWorkers exClock exWorkers)"
proof -
  let ?r = "execSteps exSteps (exStart, [])"
  note iw = exWorkers_initial
  note a = exStart_start
  have b: "?r \<noteq> None" by code_simp
  then have c: "?r = Some (fst (the ?r), snd (the ?r))" by simp
  have d: "availableWorkers (fst (the ?r)) = [7]" by code_simp
  have e: "activeWorkers (fst (the ?r)) = [7]" by code_simp
  from worker_sets_nested [OF a c] a iw b d e show ?thesis by simp
qed

end
